theory Spec2Isabelle
  imports Main "HOL-Library.Word" "HOL-Library.Multiset"
begin

chapter \<open>The trigger simulator of \<open>simulator.js\<close>\<close>

text \<open>
  A shallow embedding of \<open>parseChannels\<close>, of the class \<open>Trigger\<close> and of the simulation
  part of the class \<open>Simulator\<close>: the registry of triggers, the event queue, the run loop
  with its delayed deliveries, reset, clear, and saving and loading a layout.

  Every method becomes a function from the state before the call to the state after it.
  The state of the simulator holds, beside the fields of the object, what the methods
  write to in the browser: the log, the alerts shown and the pending \<open>setTimeout\<close>
  callbacks.  A method that can throw returns the error, or its result, together with the
  state in which it ends.  The canvas, panning, zooming, dragging, the flashes and the
  position of a trigger are display only and are left out.

  One part of the display is not left out: \<open>updateUI\<close>, which the constructor,
  \<open>handlePulse\<close>, \<open>reset\<close>, the toggle button and the edit panel call after they have
  written to a trigger, and which throws when the browser does not find the two buttons in
  the markup it has written.  What the HTML parser of the browser makes of that markup is
  a parameter of the model.

  Numbers are modelled by integers: the times and delays of the specification that
  \<open>parseInt\<close> returns for a numeral, and their sums, which JavaScript computes exactly
  below \<open>2^53\<close>.  \<open>NaN\<close> and fractions are outside the model.
\<close>

section \<open>JavaScript values used by the simulator\<close>

text \<open>
  A JavaScript string is a sequence of 16-bit code units.  Channel names, trigger ids and
  the comma-separated channel fields of a configuration are such strings.
\<close>

type_synonym code_unit = "16 word"
type_synonym jsstring = "code_unit list"

text \<open>\<open>js\<close> writes an ASCII literal as a JavaScript string.\<close>

definition js :: "string \<Rightarrow> jsstring" where
  "js s = map (\<lambda>c. of_nat (of_char c)) s"

definition comma :: code_unit where
  "comma = 0x2C"

definition space :: code_unit where
  "space = 0x20"

text \<open>
  The code units that \<open>String.prototype.trim\<close> strips: ECMAScript WhiteSpace (TAB, VT, FF,
  SP, NBSP, ZWNBSP and the Unicode space separators) and LineTerminator (LF, CR, LS, PS).
  All of them lie in the Basic Multilingual Plane, so each is one code unit.
\<close>

definition isWhiteSpace :: "code_unit \<Rightarrow> bool" where
  "isWhiteSpace c =
     (c = 0x9 \<or> c = 0xA \<or> c = 0xB \<or> c = 0xC \<or> c = 0xD \<or> c = 0x20 \<or> c = 0xA0
      \<or> c = 0x1680 \<or> (0x2000 \<le> c \<and> c \<le> 0x200A) \<or> c = 0x2028 \<or> c = 0x2029
      \<or> c = 0x202F \<or> c = 0x205F \<or> c = 0x3000 \<or> c = 0xFEFF)"

text \<open>\<open>s.trim()\<close>: the string without its leading and trailing white space.\<close>

definition trim :: "jsstring \<Rightarrow> jsstring" where
  "trim s = rev (dropWhile isWhiteSpace (rev (dropWhile isWhiteSpace s)))"

text \<open>
  \<open>s.split(',')\<close>: the pieces of \<open>s\<close> between its commas, in order.  The result is never
  empty: \<open>''.split(',')\<close> is \<open>['']\<close>, the one empty piece, and \<open>'a,'.split(',')\<close> is
  \<open>['a', '']\<close>.
\<close>

fun split_comma :: "jsstring \<Rightarrow> jsstring list" where
  "split_comma [] = [] # []"
| "split_comma (c # cs) =
     (if c = comma then [] # split_comma cs
      else (case split_comma cs of
              [] \<Rightarrow> [c] # []
            | p # ps \<Rightarrow> (c # p) # ps))"

text \<open>\<open>xs.join(', ')\<close>: the elements separated by a comma and a space.\<close>

fun join_comma_space :: "jsstring list \<Rightarrow> jsstring" where
  "join_comma_space [] = []"
| "join_comma_space [x] = x"
| "join_comma_space (x # y # ys) = x @ [comma, space] @ join_comma_space (y # ys)"

text \<open>
  The values a configuration field can hold.  Numbers are the integers that \<open>parseInt\<close>
  and the user interface produce; \<open>Object\<close> stands for any object or array.
\<close>

datatype jsval =
    Undefined
  | Null
  | Boolean bool
  | Number int
  | String jsstring
  | Object

text \<open>\<open>!v\<close> is true exactly for the falsy values.\<close>

fun falsy :: "jsval \<Rightarrow> bool" where
  "falsy Undefined = True"
| "falsy Null = True"
| "falsy (Boolean b) = (\<not> b)"
| "falsy (Number n) = (n = 0)"
| "falsy (String s) = (s = [])"
| "falsy Object = False"

fun is_string :: "jsval \<Rightarrow> bool" where
  "is_string (String s) = True"
| "is_string v = False"

section \<open>Channel parsing\<close>

text \<open>
  \<^verbatim>\<open>
  const parseChannels = (channelString) => {
      if (!channelString || typeof channelString !== 'string') return [];
      return channelString.split(',').map(c => c.trim()).filter(c => c);
  };
  \<close>
\<close>

definition parseChannels :: "jsval \<Rightarrow> jsstring list" where
  "parseChannels channelString =
     (if falsy channelString \<or> \<not> is_string channelString then []
      else (case channelString of
              String s \<Rightarrow> filter (\<lambda>c. c \<noteq> []) (map trim (split_comma s))
            | _ \<Rightarrow> []))"

text \<open>
  The lists that channel parsing can return: every entry is non-empty, has no comma and
  neither starts nor ends with white space.
\<close>

definition is_channel :: "jsstring \<Rightarrow> bool" where
  "is_channel c = (c \<noteq> [] \<and> comma \<notin> set c \<and> \<not> isWhiteSpace (hd c) \<and> \<not> isWhiteSpace (last c))"

definition is_channel_list :: "jsstring list \<Rightarrow> bool" where
  "is_channel_list xs = list_all is_channel xs"

section \<open>Triggers\<close>

text \<open>
  The configuration object given to \<open>new Trigger(config)\<close> and to \<open>addTrigger\<close>, with
  the field types of a layout snapshot.  \<open>None\<close> is an absent (or \<open>null\<close>) field; for the
  delay it also stands for the \<open>NaN\<close> that the add form passes when its delay field is empty.
  The three channel fields go through \<open>parseChannels\<close>, which accepts any value.  The
  position \<open>x\<close>, \<open>y\<close> and the DOM element are presentation only and are left out.
\<close>

record config =
  c_id :: "jsstring option"
  c_delay :: "int option"
  c_activateOn :: jsval
  c_deactivateOn :: jsval
  c_triggerOn :: jsval
  c_whenTriggered :: "jsstring option"
  c_initialState :: "bool option"

record trigger =
  tid :: "jsstring option"
  delay :: int
  activateOn :: "jsstring list"
  deactivateOn :: "jsstring list"
  triggerOn :: "jsstring list"
  whenTriggered :: "jsstring option"
  initialState :: bool
  state :: bool

datatype error = TypeError

text \<open>
  \<^verbatim>\<open>
  updateUI() {
      if (!this.element) return;
      ... style, classList ...
      this.element.innerHTML = `
          <div class="font-bold text-lg text-center">${this.id}</div>
          <div ...>State: ${this.state ? 'ACTIVE' : 'INACTIVE'}</div>
          <div ...>Delay: ${this.delay}</div>
          <div ...>
              <span>Act on:</span> <span ...>${this.activateOn.join(', ') || 'N/A'}</span>
              <span>Deact on:</span> <span ...>${this.deactivateOn.join(', ') || 'N/A'}</span>
              <span>Trig on:</span> <span ...>${this.triggerOn.join(', ') || 'N/A'}</span>
              <span>Fires:</span> <span ...>${this.whenTriggered || 'N/A'}</span>
          </div>
          <div ...>
              <button class="action-btn toggle-state-btn ...">Toggle State</button>
              <button class="action-btn manual-trigger-btn ...">Trigger</button>
          </div>`;
      this.element.querySelector('.toggle-state-btn').addEventListener('click', ...);
      this.element.querySelector('.manual-trigger-btn').addEventListener('click', ...);
  }
  \<close>
  The texts of the trigger go into the markup as they are.  When the parser of the browser
  reads one of them as markup that swallows the buttons (\<open><!--\<close> opens a comment that the
  template never closes), \<open>querySelector\<close> returns \<open>null\<close> and \<open>updateUI\<close> throws a
  \<open>TypeError\<close>.  The element of a trigger exists from its construction on.

  The HTML parser is the browser's, not the program's: it is the parameter \<open>ui\<close> of the
  model, and \<open>ui t\<close> says that the browser finds both buttons in the markup that
  \<open>updateUI\<close> writes for \<open>t\<close>.
\<close>

type_synonym browser = "trigger \<Rightarrow> bool"

definition updateUI :: "browser \<Rightarrow> trigger \<Rightarrow> error option" where
  "updateUI ui t = (if ui t then None else Some TypeError)"

text \<open>
  \<^verbatim>\<open>
  constructor(config) {
      this.id = config.id;
      this.delay = config.delay || 0;
      this.activateOn = parseChannels(config.activateOn);
      this.deactivateOn = parseChannels(config.deactivateOn);
      this.triggerOn = parseChannels(config.triggerOn);
      this.whenTriggered = config.whenTriggered || null;
      this.initialState = config.initialState || false;
      this.state = this.initialState;
      this.x = config.x;
      this.y = config.y;
      this.element = this.createElement();
      this.updateUI();
  }
  \<close>
  \<open>a || b\<close> is \<open>a\<close> when \<open>a\<close> is truthy and \<open>b\<close> otherwise; the empty string, \<open>0\<close> and
  \<open>false\<close> are falsy.  \<open>Trigger_fields\<close> is the object as the assignments leave it;
  \<open>new Trigger(config)\<close> gives it, unless \<open>updateUI\<close> throws.
\<close>

definition Trigger_fields :: "config \<Rightarrow> trigger" where
  "Trigger_fields cfg =
     (let ini = (case c_initialState cfg of Some b \<Rightarrow> (if b then b else False) | None \<Rightarrow> False)
      in \<lparr> tid = c_id cfg,
           delay = (case c_delay cfg of Some n \<Rightarrow> (if n \<noteq> 0 then n else 0) | None \<Rightarrow> 0),
           activateOn = parseChannels (c_activateOn cfg),
           deactivateOn = parseChannels (c_deactivateOn cfg),
           triggerOn = parseChannels (c_triggerOn cfg),
           whenTriggered =
             (case c_whenTriggered cfg of Some w \<Rightarrow> (if w \<noteq> [] then Some w else None) | None \<Rightarrow> None),
           initialState = ini,
           state = ini \<rparr>)"

definition Trigger :: "browser \<Rightarrow> config \<Rightarrow> error + trigger" where
  "Trigger ui cfg =
     (let this = Trigger_fields cfg
      in case updateUI ui this of
           Some e \<Rightarrow> Inl e
         | None \<Rightarrow> Inr this)"

text \<open>
  \<^verbatim>\<open>
  serialize() {
      return { id: this.id, delay: this.delay,
               activateOn: this.activateOn.join(', '),
               deactivateOn: this.deactivateOn.join(', '),
               triggerOn: this.triggerOn.join(', '),
               whenTriggered: this.whenTriggered,
               initialState: this.initialState, x: this.x, y: this.y };
  }
  \<close>
\<close>

definition serialize :: "trigger \<Rightarrow> config" where
  "serialize t =
     \<lparr> c_id = tid t,
       c_delay = Some (delay t),
       c_activateOn = String (join_comma_space (activateOn t)),
       c_deactivateOn = String (join_comma_space (deactivateOn t)),
       c_triggerOn = String (join_comma_space (triggerOn t)),
       c_whenTriggered = whenTriggered t,
       c_initialState = Some (initialState t) \<rparr>"

text \<open>
  \<open>reset() { this.state = this.initialState; this.updateUI(); }\<close>: the error thrown, if
  any, and the trigger as the call leaves it.
\<close>

definition reset :: "browser \<Rightarrow> trigger \<Rightarrow> error option \<times> trigger" where
  "reset ui t =
     (let t1 = t\<lparr>state := initialState t\<rparr>
      in (updateUI ui t1, t1))"

text \<open>A trigger whose three channel lists are results of channel parsing.\<close>

definition parsed_lists :: "trigger \<Rightarrow> bool" where
  "parsed_lists t =
     (is_channel_list (activateOn t) \<and> is_channel_list (deactivateOn t)
      \<and> is_channel_list (triggerOn t))"

section \<open>Events and the log\<close>

text \<open>
  The time of an event is a number: the time of the injected pulse, or the clock plus the
  delay of the trigger that fired.  \<open>NaN\<close> is not a time: with it the comparison function
  that \<open>run\<close> gives to \<open>sort\<close> is not consistent, and ECMAScript leaves the order of the
  sorted array to the implementation.
\<close>

record event =
  time :: int
  channel :: jsstring
  sourceId :: "jsstring option"

text \<open>The five inputs of the edit panel, named by their \<open>data-property\<close>.\<close>

datatype property = PDelay | PActivateOn | PDeactivateOn | PTriggerOn | PWhenTriggered

text \<open>
  The lines that \<open>logEvent\<close> writes, one constructor for each message text of the source,
  with the values the text interpolates.  \<open>logEvent\<close> prepends, so the newest line is first.
\<close>

datatype log_entry =
    Activated int "jsstring option" jsstring
  | Deactivated int "jsstring option" jsstring
  | Triggered int "jsstring option" jsstring
  | Scheduling jsstring int
  | TriggerCreated jsstring
  | TriggerDeleted jsstring
  | CannotPulse
  | Injecting jsstring int
  | CannotManuallyTriggerRunning
  | CannotManuallyTriggerInactive jsstring
  | ManuallyTriggering jsstring int
  | SimulationEnd
  | Processing int jsstring
  | NotHandled jsstring
  | ManuallyToggled "jsstring option" bool
  | Updated property "jsstring option"
  | SimulationReset
  | LayoutSaved
  | LayoutLoaded jsstring
  | SimulatorLoaded
  | AndGateLoaded

text \<open>The texts of the \<open>alert\<close> dialogs.\<close>

datatype alert = InvalidOrDuplicateId | ChannelNameEmpty | FailedToLoadLayout

section \<open>Pulse handling\<close>

text \<open>
  \<^verbatim>\<open>
  handlePulse(channel, eventQueue, currentTime) {
      let handled = false;
      if (channel && this.activateOn.includes(channel)) {
          this.state = true;
          simulator.logEvent(... ACTIVATED ...);
          this.updateUI();
          handled = true;
      }
      if (channel && this.deactivateOn.includes(channel)) {
          this.state = false;
          simulator.logEvent(... DEACTIVATED ...);
          this.updateUI();
          handled = true;
      }
      if (channel && this.triggerOn.includes(channel) && this.state) {
          simulator.logEvent(... TRIGGERED ...);
          if (this.whenTriggered) {
              const fireTime = currentTime + this.delay;
              simulator.logEvent(... Scheduling ...);
              eventQueue.push({ time: fireTime, channel: this.whenTriggered, sourceId: this.id });
          }
          handled = true;
      }
      return handled;
  }
  \<close>
  The model returns the error thrown or the value returned, together with the trigger, the
  queue and the log as the call leaves them.  A throw of \<open>updateUI\<close> ends the call where it
  happens: the state and the log line are written by then.
\<close>

definition handlePulse ::
  "browser \<Rightarrow> trigger \<Rightarrow> jsstring \<Rightarrow> event list \<Rightarrow> int \<Rightarrow> log_entry list
     \<Rightarrow> (error + bool) \<times> trigger \<times> event list \<times> log_entry list" where
  "handlePulse ui t ch q currentTime lg =
     (let activates = (ch \<noteq> [] \<and> ch \<in> set (activateOn t));
          (handled1, t1, lg1) =
            (if activates
             then (True, t\<lparr>state := True\<rparr>, Activated currentTime (tid t) ch # lg)
             else (False, t, lg))
      in case (if activates then updateUI ui t1 else None) of
           Some e \<Rightarrow> (Inl e, t1, q, lg1)
         | None \<Rightarrow>
             (let deactivates = (ch \<noteq> [] \<and> ch \<in> set (deactivateOn t1));
                  (handled2, t2, lg2) =
                    (if deactivates
                     then (True, t1\<lparr>state := False\<rparr>, Deactivated currentTime (tid t1) ch # lg1)
                     else (handled1, t1, lg1))
              in case (if deactivates then updateUI ui t2 else None) of
                   Some e \<Rightarrow> (Inl e, t2, q, lg2)
                 | None \<Rightarrow>
                     if ch \<noteq> [] \<and> ch \<in> set (triggerOn t2) \<and> state t2
                     then (let lg3 = Triggered currentTime (tid t2) ch # lg2
                           in case whenTriggered t2 of
                                None \<Rightarrow> (Inr True, t2, q, lg3)
                              | Some w \<Rightarrow>
                                  if w = [] then (Inr True, t2, q, lg3)
                                  else (let fireTime = currentTime + delay t2
                                        in (Inr True, t2,
                                            q @ [\<lparr> time = fireTime, channel = w,
                                                   sourceId = tid t2 \<rparr>],
                                            Scheduling w fireTime # lg3)))
                     else (Inr handled2, t2, q, lg2)))"

section \<open>The event queue\<close>

text \<open>
  The queue is the array \<open>this.eventQueue\<close>.  A push appends.  \<open>run\<close> takes the next event
  by \<open>this.eventQueue.sort((a, b) => a.time - b.time)\<close> followed by \<open>shift()\<close>.
  \<open>Array.prototype.sort\<close> sorts in place and is stable (ECMAScript 2019), so events of
  equal time keep their order in the array; \<open>sort_key\<close> is such a sort
  (\<open>sort_events_sorted\<close>, \<open>sort_events_stable\<close>).
\<close>

definition sort_events :: "event list \<Rightarrow> event list" where
  "sort_events q = sort_key time q"

text \<open>
  The sort and the shift together: the event taken and the array left, or \<open>None\<close> when the
  array is empty and \<open>shift()\<close> returns \<open>undefined\<close>.
\<close>

definition popMin :: "event list \<Rightarrow> (event \<times> event list) option" where
  "popMin q = (case sort_events q of [] \<Rightarrow> None | e # rest \<Rightarrow> Some (e, rest))"







section \<open>The simulator\<close>

text \<open>
  \<open>this.triggers\<close> is a plain object used as a map from id to trigger.  It is modelled by
  the list of its own properties in the order \<open>Object.values\<close> enumerates them.  Reading
  \<open>this.triggers[k]\<close> also finds the properties inherited from \<open>Object.prototype\<close>.
\<close>

type_synonym registry = "(jsstring \<times> trigger) list"

definition object_prototype_keys :: "jsstring list" where
  "object_prototype_keys =
     map js [''constructor'', ''hasOwnProperty'', ''isPrototypeOf'', ''propertyIsEnumerable'',
             ''toLocaleString'', ''toString'', ''valueOf'', ''__proto__'',
             ''__defineGetter__'', ''__defineSetter__'', ''__lookupGetter__'',
             ''__lookupSetter__'']"

datatype lookup = Own trigger | Inherited | Missing

definition get_property :: "registry \<Rightarrow> jsstring \<Rightarrow> lookup" where
  "get_property r k =
     (case map_of r k of
        Some t \<Rightarrow> Own t
      | None \<Rightarrow> if k \<in> set object_prototype_keys then Inherited else Missing)"

text \<open>
  Own property keys are enumerated with the array indices first, in ascending order, and
  then the other strings in the order of their creation.  An array index is the canonical
  decimal numeral of an integer below \<open>2^32 - 1\<close>.
\<close>

definition is_digit :: "code_unit \<Rightarrow> bool" where
  "is_digit c = (0x30 \<le> c \<and> c \<le> 0x39)"

definition digits_value :: "jsstring \<Rightarrow> int" where
  "digits_value k = foldl (\<lambda>a c. 10 * a + (uint c - 48)) 0 k"

definition array_index :: "jsstring \<Rightarrow> int option" where
  "array_index k =
     (if k \<noteq> [] \<and> list_all is_digit k \<and> (k = [0x30] \<or> hd k \<noteq> 0x30)
         \<and> digits_value k < 2 ^ 32 - 1
      then Some (digits_value k) else None)"

fun insert_index :: "int \<Rightarrow> jsstring \<Rightarrow> trigger \<Rightarrow> registry \<Rightarrow> registry" where
  "insert_index n k t [] = [(k, t)]"
| "insert_index n k t ((k', t') # r) =
     (case array_index k' of
        Some m \<Rightarrow> if m < n then (k', t') # insert_index n k t r else (k, t) # (k', t') # r
      | None \<Rightarrow> (k, t) # (k', t') # r)"

text \<open>
  \<open>this.triggers[k] = t\<close>: an existing property keeps its place, a new one is created.
  \<open>addTrigger\<close> is the only writer, and only for keys that \<open>this.triggers[k]\<close> does not find.
\<close>

definition set_property :: "registry \<Rightarrow> jsstring \<Rightarrow> trigger \<Rightarrow> registry" where
  "set_property r k t =
     (if k \<in> fst ` set r then map (\<lambda>(k', t'). if k' = k then (k', t) else (k', t')) r
      else (case array_index k of
              Some n \<Rightarrow> insert_index n k t r
            | None \<Rightarrow> r @ [(k, t)]))"

text \<open>\<open>delete this.triggers[k]\<close>\<close>

definition delete_property :: "registry \<Rightarrow> jsstring \<Rightarrow> registry" where
  "delete_property r k = filter (\<lambda>(k', t'). k' \<noteq> k) r"

text \<open>A change made through a reference to the trigger object registered under \<open>k\<close>.\<close>

definition update_trigger :: "jsstring \<Rightarrow> (trigger \<Rightarrow> trigger) \<Rightarrow> registry \<Rightarrow> registry" where
  "update_trigger k f r = map (\<lambda>(k', t'). if k' = k then (k', f t') else (k', t')) r"

text \<open>
  The state of the simulator object, with the two parts of the browser it writes to: the
  pending \<open>setTimeout\<close> callbacks of \<open>run\<close> (oldest first, each with the channel its closure
  captured) and the alerts shown.  \<open>clock\<close> is the field \<open>this.time\<close>; \<open>selectedTrigger\<close>
  holds the registry key of the selected trigger object.
\<close>

record simulator =
  triggers :: registry
  eventQueue :: "event list"
  clock :: int
  isSimulating :: bool
  selectedTrigger :: "jsstring option"
  activeTimeouts :: "nat list"
  timers :: "(nat \<times> jsstring) list"
  nextTimeoutId :: nat
  logOutput :: "log_entry list"
  alerts :: "alert list"

definition new_simulator :: simulator where
  "new_simulator =
     \<lparr> triggers = [], eventQueue = [], clock = 0, isSimulating = False,
       selectedTrigger = None, activeTimeouts = [], timers = [], nextTimeoutId = 1,
       logOutput = [], alerts = [] \<rparr>"

text \<open>
  \<^verbatim>\<open>
  addTrigger(config) {
      if (!config.id || this.triggers[config.id]) {
          alert('Invalid or duplicate trigger ID.');
          return null;
      }
      const trigger = new Trigger(config);
      this.triggers[config.id] = trigger;
      this.logEvent(`Trigger '${config.id}' created.`);
      return trigger;
  }
  \<close>
  When the constructor throws, nothing has been registered or logged.
\<close>

definition addTrigger ::
  "browser \<Rightarrow> config \<Rightarrow> simulator \<Rightarrow> (error + trigger option) \<times> simulator" where
  "addTrigger ui cfg s =
     (case c_id cfg of
        None \<Rightarrow> (Inr None, s\<lparr>alerts := InvalidOrDuplicateId # alerts s\<rparr>)
      | Some i \<Rightarrow>
          if i = [] \<or> get_property (triggers s) i \<noteq> Missing
          then (Inr None, s\<lparr>alerts := InvalidOrDuplicateId # alerts s\<rparr>)
          else (case Trigger ui cfg of
                  Inl e \<Rightarrow> (Inl e, s)
                | Inr trigger \<Rightarrow>
                    (Inr (Some trigger),
                     s\<lparr>triggers := set_property (triggers s) i trigger,
                       logOutput := TriggerCreated i # logOutput s\<rparr>)))"

text \<open>
  \<open>selectTrigger(trigger)\<close>, with \<open>None\<close> for \<open>null\<close>; the rest of it is display.  The
  model keeps the key of the selected trigger.  The element of a trigger whose constructor
  threw stays on the canvas, and a click selects that object, which is in no registry: in
  the model this is the selection of a key, under which the edit panel finds no trigger or
  the registered one.
\<close>

definition selectTrigger :: "jsstring option \<Rightarrow> simulator \<Rightarrow> simulator" where
  "selectTrigger k s = s\<lparr>selectedTrigger := k\<rparr>"

text \<open>
  \<^verbatim>\<open>
  deleteTrigger(triggerId) {
      if (!this.triggers[triggerId]) return;
      const trigger = this.triggers[triggerId];
      trigger.element.remove();
      delete this.triggers[triggerId];
      this.selectTrigger(null);
      this.logEvent(`Deleted trigger '${triggerId}'.`);
  }
  \<close>
  An inherited property is not a trigger: it has no \<open>element\<close>, and the call throws.
\<close>

definition deleteTrigger :: "jsstring \<Rightarrow> simulator \<Rightarrow> error + simulator" where
  "deleteTrigger k s =
     (case get_property (triggers s) k of
        Missing \<Rightarrow> Inr s
      | Inherited \<Rightarrow> Inl TypeError
      | Own t \<Rightarrow>
          Inr ((selectTrigger None (s\<lparr>triggers := delete_property (triggers s) k\<rparr>))
                 \<lparr>logOutput := TriggerDeleted k # logOutput s\<rparr>))"

text \<open>
  \<^verbatim>\<open>
  run() {
      if (this.eventQueue.length === 0) {
          this.logEvent('--- Simulation End ---', 'bold');
          this.isSimulating = false;
          return;
      }
      this.eventQueue.sort((a, b) => a.time - b.time);
      const { time, channel, sourceId } = this.eventQueue.shift();
      this.time = time;
      this.logEvent(`--- Processing T=${time}, Channel='${channel}' ---`, 'bold');
      ... flash ...
      const timeoutId = setTimeout(() => { ... }, 700);
      this.activeTimeouts.push(timeoutId);
  }
  \<close>
  The queue is not empty where it is sorted and shifted, so the case \<open>None\<close> below is
  never taken.
\<close>

definition run :: "simulator \<Rightarrow> simulator" where
  "run s =
     (if eventQueue s = []
      then s\<lparr>logOutput := SimulationEnd # logOutput s, isSimulating := False\<rparr>
      else (case popMin (eventQueue s) of
              None \<Rightarrow> s
            | Some (e, rest) \<Rightarrow>
                s\<lparr>eventQueue := rest,
                  clock := time e,
                  logOutput := Processing (time e) (channel e) # logOutput s,
                  timers := timers s @ [(nextTimeoutId s, channel e)],
                  nextTimeoutId := Suc (nextTimeoutId s),
                  activeTimeouts := activeTimeouts s @ [nextTimeoutId s]\<rparr>))"

text \<open>
  \<^verbatim>\<open>
  Object.values(this.triggers).forEach(trigger => {
      const handled = trigger.handlePulse(channel, this.eventQueue, this.time);
      if (handled) handledAtLeastOnce = true;
  });
  \<close>
  A throw of \<open>handlePulse\<close> ends the loop: the triggers after the throwing one are not
  called.
\<close>

fun broadcast ::
  "browser \<Rightarrow> jsstring \<Rightarrow> int \<Rightarrow> registry \<Rightarrow> event list \<Rightarrow> log_entry list
     \<Rightarrow> (error + bool) \<times> registry \<times> event list \<times> log_entry list" where
  "broadcast ui ch now [] q lg = (Inr False, [], q, lg)"
| "broadcast ui ch now ((k, t) # r) q lg =
     (case handlePulse ui t ch q now lg of
        (Inl e, t', q', lg') \<Rightarrow> (Inl e, (k, t') # r, q', lg')
      | (Inr handled, t', q', lg') \<Rightarrow>
          (case broadcast ui ch now r q' lg' of
             (Inl e, r', q'', lg'') \<Rightarrow> (Inl e, (k, t') # r', q'', lg'')
           | (Inr handledAtLeastOnce, r', q'', lg'') \<Rightarrow>
               (Inr (handled \<or> handledAtLeastOnce), (k, t') # r', q'', lg'')))"

text \<open>
  The callback that \<open>run\<close> passes to \<open>setTimeout\<close>:
  \<^verbatim>\<open>
  () => {
      this.activeTimeouts.shift();
      let handledAtLeastOnce = false;
      Object.values(this.triggers).forEach(...);
      if (!handledAtLeastOnce) this.logEvent(`  - Pulse on '${channel}' was not handled ...`);
      this.run();
  }
  \<close>
  A throw in the loop ends the callback: \<open>run\<close> is not called, the simulation stays
  marked as running and nothing is pending.
\<close>

definition timeout_callback :: "browser \<Rightarrow> jsstring \<Rightarrow> simulator \<Rightarrow> simulator" where
  "timeout_callback ui ch s =
     (let s1 = s\<lparr>activeTimeouts := drop 1 (activeTimeouts s)\<rparr>
      in case broadcast ui ch (clock s1) (triggers s1) (eventQueue s1) (logOutput s1) of
           (Inl e, r, q, lg) \<Rightarrow> s1\<lparr>triggers := r, eventQueue := q, logOutput := lg\<rparr>
         | (Inr handledAtLeastOnce, r, q, lg) \<Rightarrow>
             run (s1\<lparr>triggers := r, eventQueue := q,
                     logOutput := (if handledAtLeastOnce then lg else NotHandled ch # lg)\<rparr>))"

text \<open>The browser runs the oldest pending callback, if there is one, and forgets it.\<close>

definition fire_timer :: "browser \<Rightarrow> simulator \<Rightarrow> simulator" where
  "fire_timer ui s =
     (case timers s of
        [] \<Rightarrow> s
      | (i, ch) # rest \<Rightarrow> timeout_callback ui ch (s\<lparr>timers := rest\<rparr>))"

text \<open>\<open>ids.forEach(id => clearTimeout(id))\<close>\<close>

definition clearTimeouts :: "nat list \<Rightarrow> (nat \<times> jsstring) list \<Rightarrow> (nat \<times> jsstring) list" where
  "clearTimeouts ids ts = filter (\<lambda>(i, ch). i \<notin> set ids) ts"

text \<open>
  \<^verbatim>\<open>
  pulseChannel(channel, time = 0) {
      if (this.isSimulating) {
          this.logEvent("Cannot pulse; simulation is already running.", "bold");
          return;
      }
      if (!channel) { alert("Channel name cannot be empty."); return; }
      this.isSimulating = true;
      this.logEvent(`Injecting initial pulse on channel '${channel}' at T=${time}`, 'bold');
      this.eventQueue.push({ time, channel, sourceId: 'EXTERNAL' });
      this.run();
  }
  \<close>
\<close>

definition pulseChannel :: "jsstring \<Rightarrow> int \<Rightarrow> simulator \<Rightarrow> simulator" where
  "pulseChannel ch t s =
     (if isSimulating s then s\<lparr>logOutput := CannotPulse # logOutput s\<rparr>
      else if ch = [] then s\<lparr>alerts := ChannelNameEmpty # alerts s\<rparr>
      else run (s\<lparr>isSimulating := True,
                   logOutput := Injecting ch t # logOutput s,
                   eventQueue := eventQueue s
                     @ [\<lparr> time = t, channel = ch, sourceId = Some (js ''EXTERNAL'') \<rparr>]\<rparr>))"

text \<open>
  \<^verbatim>\<open>
  manuallyTrigger(triggerId) {
      if (this.isSimulating) { this.logEvent("Cannot manually trigger; ...", "bold"); return; }
      const trigger = this.triggers[triggerId];
      if (!trigger) return;
      if (!trigger.state) { this.logEvent(`Cannot manually trigger ... inactive.`, "bold"); return; }
      this.isSimulating = true;
      this.logEvent(`Manually triggering '${triggerId}' at T=${this.time}`, 'bold');
      if (trigger.whenTriggered) {
          const fireTime = this.time + trigger.delay;
          this.logEvent(`  - Scheduling pulse on '${trigger.whenTriggered}' at T=${fireTime}`);
          this.eventQueue.push({ time: fireTime, channel: trigger.whenTriggered,
                                 sourceId: trigger.id });
      }
      trigger.flash('fire');
      this.run();
  }
  \<close>
  An inherited property is truthy and has no \<open>state\<close>.
\<close>

definition manuallyTrigger :: "jsstring \<Rightarrow> simulator \<Rightarrow> simulator" where
  "manuallyTrigger k s =
     (if isSimulating s then s\<lparr>logOutput := CannotManuallyTriggerRunning # logOutput s\<rparr>
      else (case get_property (triggers s) k of
              Missing \<Rightarrow> s
            | Inherited \<Rightarrow> s\<lparr>logOutput := CannotManuallyTriggerInactive k # logOutput s\<rparr>
            | Own trigger \<Rightarrow>
                if \<not> state trigger
                then s\<lparr>logOutput := CannotManuallyTriggerInactive k # logOutput s\<rparr>
                else (let s1 = s\<lparr>isSimulating := True,
                                  logOutput := ManuallyTriggering k (clock s) # logOutput s\<rparr>;
                          s2 = (case whenTriggered trigger of
                                  None \<Rightarrow> s1
                                | Some w \<Rightarrow>
                                    if w = [] then s1
                                    else (let fireTime = clock s1 + delay trigger
                                          in s1\<lparr>logOutput := Scheduling w fireTime # logOutput s1,
                                                eventQueue := eventQueue s1
                                                  @ [\<lparr> time = fireTime, channel = w,
                                                       sourceId = tid trigger \<rparr>]\<rparr>))
                      in run s2)))"

text \<open>
  The click listener of a trigger's ``Toggle State'' button, for the trigger registered
  under \<open>k\<close>:
  \<^verbatim>\<open>
  if (simulator.isSimulating) return;
  this.state = !this.state;
  this.initialState = this.state;
  this.updateUI();
  simulator.logEvent(`Manually toggled '${this.id}' to ...`);
  \<close>
  When \<open>updateUI\<close> throws, the two fields are written and the log line is not.  The model
  lets the button of every registered trigger be clicked, also that of a trigger whose
  display has lost it.
\<close>

definition toggleState :: "browser \<Rightarrow> jsstring \<Rightarrow> simulator \<Rightarrow> simulator" where
  "toggleState ui k s =
     (if isSimulating s then s
      else (case map_of (triggers s) k of
              None \<Rightarrow> s
            | Some t \<Rightarrow>
                (let t1 = t\<lparr>state := \<not> state t, initialState := \<not> state t\<rparr>;
                     s1 = s\<lparr>triggers := update_trigger k (\<lambda>t. t1) (triggers s)\<rparr>
                 in case updateUI ui t1 of
                      Some e \<Rightarrow> s1
                    | None \<Rightarrow>
                        s1\<lparr>logOutput := ManuallyToggled (tid t1) (state t1) # logOutput s1\<rparr>)))"

text \<open>
  A change event of the edit panel: the input's property and its value, which
  \<open>parseInt\<close> has made an integer for the number input of the delay.  \<open>EditDelay n\<close> is
  the change to a field that holds the numeral of \<open>n\<close>.  For a delay field without a
  numeral \<open>parseInt\<close> returns \<open>NaN\<close>, which is no duration of the specification and no
  number of the model: the model has no such change.
  \<^verbatim>\<open>
  updateTriggerProperty(e) {
      if (!this.selectedTrigger) return;
      const property = e.target.dataset.property;
      let value = e.target.value;
      if (e.target.type === 'number') {
          value = parseInt(value);
      } else if (['activateOn', 'deactivateOn', 'triggerOn'].includes(property)) {
          this.selectedTrigger[property] = parseChannels(value);
      } else {
          this.selectedTrigger[property] = value || null;
      }
      if (!Array.isArray(this.selectedTrigger[property])) {
          this.selectedTrigger[property] = value;
      }
      this.selectedTrigger.updateUI();
      this.logEvent(`Updated '${property}' for trigger '${this.selectedTrigger.id}'.`);
  }
  \<close>
  For \<open>whenTriggered\<close> the value \<open>value || null\<close> is stored first; the field is not an
  array, so the second assignment then stores \<open>value\<close> itself, empty or not.  The value is
  stored before \<open>updateUI\<close> is called: when that throws, only the log line is missing.
\<close>

datatype edit =
    EditDelay int
  | EditActivateOn jsstring
  | EditDeactivateOn jsstring
  | EditTriggerOn jsstring
  | EditWhenTriggered jsstring

fun edit_property :: "edit \<Rightarrow> property" where
  "edit_property (EditDelay n) = PDelay"
| "edit_property (EditActivateOn v) = PActivateOn"
| "edit_property (EditDeactivateOn v) = PDeactivateOn"
| "edit_property (EditTriggerOn v) = PTriggerOn"
| "edit_property (EditWhenTriggered v) = PWhenTriggered"

fun apply_edit :: "edit \<Rightarrow> trigger \<Rightarrow> trigger" where
  "apply_edit (EditDelay n) t = t\<lparr>delay := n\<rparr>"
| "apply_edit (EditActivateOn v) t = t\<lparr>activateOn := parseChannels (String v)\<rparr>"
| "apply_edit (EditDeactivateOn v) t = t\<lparr>deactivateOn := parseChannels (String v)\<rparr>"
| "apply_edit (EditTriggerOn v) t = t\<lparr>triggerOn := parseChannels (String v)\<rparr>"
| "apply_edit (EditWhenTriggered v) t =
     (let t1 = t\<lparr>whenTriggered := (if v \<noteq> [] then Some v else None)\<rparr>
      in t1\<lparr>whenTriggered := Some v\<rparr>)"

definition updateTriggerProperty :: "browser \<Rightarrow> edit \<Rightarrow> simulator \<Rightarrow> simulator" where
  "updateTriggerProperty ui e s =
     (case selectedTrigger s of
        None \<Rightarrow> s
      | Some k \<Rightarrow>
          (case map_of (triggers s) k of
             None \<Rightarrow> s
           | Some t \<Rightarrow>
               (let t1 = apply_edit e t;
                    s1 = s\<lparr>triggers := update_trigger k (\<lambda>t. t1) (triggers s)\<rparr>
                in case updateUI ui t1 of
                     Some err \<Rightarrow> s1
                   | None \<Rightarrow> s1\<lparr>logOutput := Updated (edit_property e) (tid t1) # logOutput s1\<rparr>)))"

text \<open>
  \<^verbatim>\<open>
  clear() {
      this.isSimulating = false;
      this.activeTimeouts.forEach(id => clearTimeout(id));
      this.activeTimeouts = [];
      this.eventQueue = [];
      this.time = 0;
      this.logOutput.innerHTML = '';
      this.zoomContainer.innerHTML = '';
      this.triggers = {};
      this.selectTrigger(null);
  }
  \<close>
\<close>

definition clear :: "simulator \<Rightarrow> simulator" where
  "clear s =
     selectTrigger None
       (s\<lparr>isSimulating := False,
          timers := clearTimeouts (activeTimeouts s) (timers s),
          activeTimeouts := [],
          eventQueue := [],
          clock := 0,
          logOutput := [],
          triggers := []\<rparr>)"

text \<open>
  \<^verbatim>\<open>
  resetSimulation() {
      this.isSimulating = false;
      this.activeTimeouts.forEach(id => clearTimeout(id));
      this.activeTimeouts = [];
      this.eventQueue = [];
      this.time = 0;
      this.logOutput.innerHTML = '';
      Object.values(this.triggers).forEach(trigger => trigger.reset());
      this.logEvent('Simulation reset to initial states.');
  }
  \<close>
  \<open>reset_all\<close> is the loop: a throw of \<open>reset\<close> ends it, the triggers after the throwing
  one are not reset, and the log line is not written.
\<close>

fun reset_all :: "browser \<Rightarrow> registry \<Rightarrow> error option \<times> registry" where
  "reset_all ui [] = (None, [])"
| "reset_all ui ((k, t) # r) =
     (case reset ui t of
        (Some e, t') \<Rightarrow> (Some e, (k, t') # r)
      | (None, t') \<Rightarrow> (case reset_all ui r of (e, r') \<Rightarrow> (e, (k, t') # r')))"

definition resetSimulation :: "browser \<Rightarrow> simulator \<Rightarrow> simulator" where
  "resetSimulation ui s =
     (let s1 = s\<lparr>isSimulating := False,
                 timers := clearTimeouts (activeTimeouts s) (timers s),
                 activeTimeouts := [],
                 eventQueue := [],
                 clock := 0,
                 logOutput := []\<rparr>
      in case reset_all ui (triggers s) of
           (Some e, r) \<Rightarrow> s1\<lparr>triggers := r\<rparr>
         | (None, r) \<Rightarrow> s1\<lparr>triggers := r, logOutput := [SimulationReset]\<rparr>)"

text \<open>
  \<open>saveLayout\<close>: the snapshots \<open>Object.values(this.triggers).map(t => t.serialize())\<close> that go
  into the downloaded file, and a log line.
\<close>

definition saveLayout :: "simulator \<Rightarrow> config list \<times> simulator" where
  "saveLayout s = (map (\<lambda>(k, t). serialize t) (triggers s), s\<lparr>logOutput := LayoutSaved # logOutput s\<rparr>)"

text \<open>
  What \<open>JSON.parse\<close> makes of the text of a layout file: it throws, or returns a value
  that is not an array, or returns an array.  An array element is \<open>null\<close> (\<open>None\<close>) or
  is taken as a configuration object.
  \<^verbatim>\<open>
  loadLayout(file) {
      if (!file) return;
      const reader = new FileReader();
      reader.onload = (e) => {
          try {
              const layoutData = JSON.parse(e.target.result);
              if (!Array.isArray(layoutData)) throw new Error("Invalid format");
              this.clear();
              layoutData.forEach(config => this.addTrigger(config));
              this.logEvent(`Layout loaded from ${file.name}`);
          } catch (error) {
              alert('Failed to load layout. The file may be corrupted or in the wrong format.');
              console.error("Load error:", error);
          }
      };
      reader.readAsText(file);
  }
  \<close>
  Reading \<open>config.id\<close> of a \<open>null\<close> element throws, and so does \<open>addTrigger\<close> when the
  constructor throws; what was loaded before stays.
\<close>

datatype layout_data = Unparsable | NotAnArray | Entries "config option list"

text \<open>
  \<open>configs.forEach(config => this.addTrigger(config))\<close>: the error thrown, if any, and
  the state in which the loop stops.
\<close>

fun add_entries :: "browser \<Rightarrow> config option list \<Rightarrow> simulator \<Rightarrow> error option \<times> simulator" where
  "add_entries ui [] s = (None, s)"
| "add_entries ui (None # cs) s = (Some TypeError, s)"
| "add_entries ui (Some cfg # cs) s =
     (case addTrigger ui cfg s of
        (Inl e, s') \<Rightarrow> (Some e, s')
      | (Inr added, s') \<Rightarrow> add_entries ui cs s')"

definition loadLayout ::
  "browser \<Rightarrow> (jsstring \<times> layout_data) option \<Rightarrow> simulator \<Rightarrow> simulator" where
  "loadLayout ui file s =
     (case file of
        None \<Rightarrow> s
      | Some (name, Unparsable) \<Rightarrow> s\<lparr>alerts := FailedToLoadLayout # alerts s\<rparr>
      | Some (name, NotAnArray) \<Rightarrow> s\<lparr>alerts := FailedToLoadLayout # alerts s\<rparr>
      | Some (name, Entries cs) \<Rightarrow>
          (case add_entries ui cs (clear s) of
             (Some err, s1) \<Rightarrow> s1\<lparr>alerts := FailedToLoadLayout # alerts s1\<rparr>
           | (None, s1) \<Rightarrow> s1\<lparr>logOutput := LayoutLoaded name # logOutput s1\<rparr>))"

text \<open>
  The listener of the window's \<open>load\<close> event builds the AND gate example:
  \<^verbatim>\<open>
  simulator.logEvent("Simulator loaded. Building an AND gate example.");
  simulator.addTrigger({ id: 'T_A_MEM', activateOn: 'A_ON', deactivateOn: 'RESET', initialState: true });
  simulator.addTrigger({ id: 'T_B_MEM', activateOn: 'B_ON', deactivateOn: 'RESET', initialState: true });
  simulator.addTrigger({ id: 'T_CHAIN', activateOn: 'A_ON', deactivateOn: 'RESET',
                         triggerOn: 'B_ON', whenTriggered: 'AND_SUCCESS', delay: 2 });
  simulator.addTrigger({ id: 'T_RESULT', activateOn: 'AND_SUCCESS', deactivateOn: 'RESET' });
  simulator.logEvent("AND Gate loaded. Pulse 'RESET', then 'A_ON', then 'B_ON' to test.");
  \<close>
  The four calls are made one after the other; a throw ends the listener.
\<close>

definition cfg_T_A_MEM :: config where
  "cfg_T_A_MEM =
     \<lparr> c_id = Some (js ''T_A_MEM''), c_delay = None, c_activateOn = String (js ''A_ON''),
       c_deactivateOn = String (js ''RESET''), c_triggerOn = Undefined,
       c_whenTriggered = None, c_initialState = Some True \<rparr>"

definition cfg_T_B_MEM :: config where
  "cfg_T_B_MEM =
     \<lparr> c_id = Some (js ''T_B_MEM''), c_delay = None, c_activateOn = String (js ''B_ON''),
       c_deactivateOn = String (js ''RESET''), c_triggerOn = Undefined,
       c_whenTriggered = None, c_initialState = Some True \<rparr>"

definition cfg_T_CHAIN :: config where
  "cfg_T_CHAIN =
     \<lparr> c_id = Some (js ''T_CHAIN''), c_delay = Some 2, c_activateOn = String (js ''A_ON''),
       c_deactivateOn = String (js ''RESET''), c_triggerOn = String (js ''B_ON''),
       c_whenTriggered = Some (js ''AND_SUCCESS''), c_initialState = None \<rparr>"

definition cfg_T_RESULT :: config where
  "cfg_T_RESULT =
     \<lparr> c_id = Some (js ''T_RESULT''), c_delay = None, c_activateOn = String (js ''AND_SUCCESS''),
       c_deactivateOn = String (js ''RESET''), c_triggerOn = Undefined,
       c_whenTriggered = None, c_initialState = None \<rparr>"

text \<open>A second example: a relay that its own trigger channel also activates.\<close>

definition relay_config :: config where
  "relay_config =
     \<lparr> c_id = Some (js ''RELAY''), c_delay = Some 3, c_activateOn = String (js ''GO''),
       c_deactivateOn = Undefined, c_triggerOn = String (js ''GO, X''),
       c_whenTriggered = Some (js ''OUT''), c_initialState = None \<rparr>"

definition load_example :: "browser \<Rightarrow> simulator \<Rightarrow> simulator" where
  "load_example ui s =
     (case add_entries ui (map Some [cfg_T_A_MEM, cfg_T_B_MEM, cfg_T_CHAIN, cfg_T_RESULT])
             (s\<lparr>logOutput := SimulatorLoaded # logOutput s\<rparr>) of
        (Some e, s1) \<Rightarrow> s1
      | (None, s1) \<Rightarrow> s1\<lparr>logOutput := AndGateLoaded # logOutput s1\<rparr>)"

section \<open>The states the simulator can be in\<close>

text \<open>
  Every operation of the user interface, from the state \<open>new Simulator()\<close> builds, in a
  browser \<open>ui\<close>.  An operation that throws leaves the state in which it stopped.  The delete
  button deletes the selected trigger.
\<close>

inductive reachable :: "browser \<Rightarrow> simulator \<Rightarrow> bool" for ui :: browser where
  r_new: "reachable ui new_simulator"
| r_example: "reachable ui s \<Longrightarrow> reachable ui (load_example ui s)"
| r_add: "reachable ui s \<Longrightarrow> reachable ui (snd (addTrigger ui cfg s))"
| r_select: "reachable ui s \<Longrightarrow> reachable ui (selectTrigger k s)"
| r_delete: "reachable ui s \<Longrightarrow> selectedTrigger s = Some k \<Longrightarrow> deleteTrigger k s = Inr s'
             \<Longrightarrow> reachable ui s'"
| r_pulse: "reachable ui s \<Longrightarrow> reachable ui (pulseChannel ch t s)"
| r_manual: "reachable ui s \<Longrightarrow> reachable ui (manuallyTrigger k s)"
| r_timer: "reachable ui s \<Longrightarrow> reachable ui (fire_timer ui s)"
| r_toggle: "reachable ui s \<Longrightarrow> reachable ui (toggleState ui k s)"
| r_update: "reachable ui s \<Longrightarrow> reachable ui (updateTriggerProperty ui e s)"
| r_reset: "reachable ui s \<Longrightarrow> reachable ui (resetSimulation ui s)"
| r_clear: "reachable ui s \<Longrightarrow> reachable ui (clear s)"
| r_save: "reachable ui s \<Longrightarrow> reachable ui (snd (saveLayout s))"
| r_load: "reachable ui s \<Longrightarrow> reachable ui (loadLayout ui file s)"

text \<open>
  A run started by a pulse and left alone: the state after the pulse and after each of
  the next \<open>n\<close> delayed deliveries.
\<close>

fun deliveries :: "browser \<Rightarrow> nat \<Rightarrow> simulator \<Rightarrow> simulator list" where
  "deliveries ui 0 s = [s]"
| "deliveries ui (Suc n) s = s # deliveries ui n (fire_timer ui s)"


text \<open>
  What holds of the run gate, the queue and the pending deliveries in every state the
  simulator reaches: an idle simulator has no pending event and no pending delivery; the
  pending deliveries are the ones \<open>activeTimeouts\<close> lists; there is at most one.
\<close>

definition consistent :: "simulator \<Rightarrow> bool" where
  "consistent s =
     ((\<not> isSimulating s \<longrightarrow> eventQueue s = [] \<and> timers s = [])
      \<and> map fst (timers s) = activeTimeouts s
      \<and> length (timers s) \<le> 1)"

text \<open>The fields that \<open>consistent\<close> reads.\<close>

definition control :: "simulator \<Rightarrow> event list \<times> bool \<times> (nat \<times> jsstring) list \<times> nat list" where
  "control s = (eventQueue s, isSimulating s, timers s, activeTimeouts s)"

definition all_parsed :: "registry \<Rightarrow> bool" where
  "all_parsed r = (\<forall>(k, t) \<in> set r. parsed_lists t)"

definition delays_ok :: "registry \<Rightarrow> bool" where
  "delays_ok r = (\<forall>(k, t) \<in> set r. 0 \<le> delay t)"

text \<open>No event of the queue is due before the time \<open>c\<close>.\<close>

definition not_before :: "int \<Rightarrow> event list \<Rightarrow> bool" where
  "not_before c q = (\<forall>e \<in> set q. c \<le> time e)"

section \<open>Example states\<close>

text \<open>
  A browser for the examples.  Markup begins with \<open><\<close>: a text without it is text to every
  HTML parser, and the buttons behind it are found.  The examples use such texts and the
  text \<open><!--\<close>, which opens a comment that runs to the end of the template, so that
  the buttons are lost.  On these, every browser does what \<open>example_browser\<close> does.
\<close>

definition less_than_sign :: code_unit where
  "less_than_sign = 0x3C"

definition displayed_texts :: "trigger \<Rightarrow> jsstring list" where
  "displayed_texts t =
     (case tid t of Some i \<Rightarrow> [i] | None \<Rightarrow> [])
     @ activateOn t @ deactivateOn t @ triggerOn t
     @ (case whenTriggered t of Some w \<Rightarrow> [w] | None \<Rightarrow> [])"

definition example_browser :: browser where
  "example_browser t = list_all (\<lambda>x. less_than_sign \<notin> set x) (displayed_texts t)"

text \<open>
  What the examples look at in a state: for each trigger its key, state, initial state and
  delay; the event queue, the clock, the running flag and the pending deliveries.
\<close>

definition observe ::
  "simulator \<Rightarrow> (jsstring \<times> bool \<times> bool \<times> int) list \<times> event list \<times> int \<times> bool
     \<times> (nat \<times> jsstring) list \<times> nat list" where
  "observe s =
     (map (\<lambda>(k, t). (k, state t, initialState t, delay t)) (triggers s),
      eventQueue s, clock s, isSimulating s, timers s, activeTimeouts s)"

text \<open>A trigger that one channel both activates and deactivates.\<close>

definition tie_config :: config where
  "tie_config =
     \<lparr> c_id = Some (js ''TIE''), c_delay = None, c_activateOn = String (js ''X''),
       c_deactivateOn = String (js ''RESET, X''), c_triggerOn = Undefined,
       c_whenTriggered = None, c_initialState = Some True \<rparr>"

text \<open>The AND gate as the page shows it after loading.\<close>

definition and_gate :: simulator where
  "and_gate = load_example example_browser new_simulator"

text \<open>The AND gate after a pulse on \<open>A_ON\<close> has been delivered: idle, \<open>T_CHAIN\<close> active.\<close>

definition and_gate_armed :: simulator where
  "and_gate_armed = fire_timer example_browser (pulseChannel (js ''A_ON'') 0 and_gate)"

text \<open>
  Then a pulse on \<open>B_ON\<close> has been delivered: \<open>T_CHAIN\<close> has fired, and the delivery of
  \<open>AND_SUCCESS\<close> at time 2 is pending.
\<close>

definition and_gate_running :: simulator where
  "and_gate_running = fire_timer example_browser (pulseChannel (js ''B_ON'') 0 and_gate_armed)"

text \<open>
  The AND gate after \<open>T_CHAIN\<close> has been selected and its ``When Triggered'' field
  emptied in the edit panel.
\<close>

definition edited_example :: simulator where
  "edited_example =
     updateTriggerProperty example_browser (EditWhenTriggered [])
       (selectTrigger (Some (js ''T_CHAIN'')) and_gate)"

text \<open>
  The AND gate after \<open>T_CHAIN\<close> has been selected and \<open><!--\<close> typed into its ``When
  Triggered'' field: the value is stored, and the display of \<open>T_CHAIN\<close> has lost its buttons.
\<close>

definition comment_example :: simulator where
  "comment_example =
     updateTriggerProperty example_browser (EditWhenTriggered (js ''<!--''))
       (selectTrigger (Some (js ''T_CHAIN'')) and_gate)"

text \<open>Then a pulse on \<open>AND_SUCCESS\<close> has been delivered: idle, \<open>T_RESULT\<close> active.\<close>

definition comment_example_result :: simulator where
  "comment_example_result =
     fire_timer example_browser (pulseChannel (js ''AND_SUCCESS'') 0 comment_example)"

text \<open>
  The trigger \<open>TIE\<close>, registered in a new simulator, after \<open><!--\<close> has been typed into its
  ``When Triggered'' field.
\<close>

definition comment_tie :: simulator where
  "comment_tie =
     updateTriggerProperty example_browser (EditWhenTriggered (js ''<!--''))
       (selectTrigger (Some (js ''TIE''))
          (snd (addTrigger example_browser tie_config new_simulator)))"

section \<open>Facts about splitting, trimming and joining\<close>

lemma parseChannels_String:
  "parseChannels (String s) =
     (if s = [] then [] else filter (\<lambda>c. c \<noteq> []) (map trim (split_comma s)))"
  by (simp add: parseChannels_def)

lemma parseChannels_not_string: "\<not> is_string v \<Longrightarrow> parseChannels v = []"
  by (simp add: parseChannels_def)

lemma split_comma_not_Nil: "split_comma s \<noteq> []"
  by (induction s) (auto split: list.splits)

lemma split_comma_no_comma: "p \<in> set (split_comma s) \<Longrightarrow> comma \<notin> set p"
proof (induction s arbitrary: p)
  case Nil
  then show ?case by simp
next
  case (Cons c cs)
  show ?case
  proof (cases "c = comma")
    case True
    with Cons show ?thesis by auto
  next
    case False
    obtain q qs where q: "split_comma cs = q # qs"
      using split_comma_not_Nil [of cs] by (cases "split_comma cs") auto
    with Cons False show ?thesis by auto
  qed
qed

text \<open>
  The pieces, each put behind a comma, make up the string behind a comma: splitting loses
  and reorders nothing.
\<close>

lemma split_comma_pieces: "concat (map (\<lambda>p. comma # p) (split_comma s)) = comma # s"
proof (induction s)
  case Nil
  show ?case by simp
next
  case (Cons c cs)
  show ?case
  proof (cases "c = comma")
    case True
    with Cons show ?thesis by simp
  next
    case False
    obtain p ps where sp: "split_comma cs = p # ps"
      using split_comma_not_Nil [of cs] by (cases "split_comma cs") auto
    with Cons have "p @ concat (map (\<lambda>p. comma # p) ps) = cs" by simp
    then have "(c # p) @ concat (map (\<lambda>p. comma # p) ps) = c # cs" by simp
    with False sp show ?thesis by simp
  qed
qed

lemma split_comma_plain: "comma \<notin> set x \<Longrightarrow> split_comma x = [x]"
  by (induction x) auto

lemma split_comma_append:
  "comma \<notin> set x \<Longrightarrow> split_comma (x @ comma # rest) = x # split_comma rest"
  by (induction x) auto

lemma set_dropWhile_subset: "set (dropWhile P xs) \<subseteq> set xs"
  by (auto dest: set_dropWhileD)

lemma set_trim_subset: "set (trim p) \<subseteq> set p"
proof -
  have "set (trim p) \<subseteq> set (rev (dropWhile isWhiteSpace p))"
    unfolding trim_def using set_dropWhile_subset [of isWhiteSpace "rev (dropWhile isWhiteSpace p)"]
    by simp
  also have "\<dots> \<subseteq> set p"
    using set_dropWhile_subset [of isWhiteSpace p] by simp
  finally show ?thesis .
qed

lemma trim_no_comma: "comma \<notin> set p \<Longrightarrow> comma \<notin> set (trim p)"
  using set_trim_subset [of p] by auto

lemma dropWhile_hd: "dropWhile P xs \<noteq> [] \<Longrightarrow> \<not> P (hd (dropWhile P xs))"
  using hd_dropWhile by blast

lemma trim_prefix:
  "dropWhile isWhiteSpace s =
   trim s @ rev (takeWhile isWhiteSpace (rev (dropWhile isWhiteSpace s)))"
proof -
  let ?a = "dropWhile isWhiteSpace s"
  have "?a = rev (rev ?a)" by simp
  also have "\<dots> = rev (takeWhile isWhiteSpace (rev ?a) @ dropWhile isWhiteSpace (rev ?a))"
    by (simp only: takeWhile_dropWhile_id)
  also have "\<dots> = rev (dropWhile isWhiteSpace (rev ?a)) @ rev (takeWhile isWhiteSpace (rev ?a))"
    by (rule rev_append)
  finally show ?thesis by (simp only: trim_def)
qed

text \<open>Trimming takes white space, and nothing else, from the two ends.\<close>

lemma trim_strips:
  "\<exists>l r. s = l @ trim s @ r \<and> list_all isWhiteSpace l \<and> list_all isWhiteSpace r"
proof -
  let ?l = "takeWhile isWhiteSpace s"
  let ?r = "rev (takeWhile isWhiteSpace (rev (dropWhile isWhiteSpace s)))"
  have "s = ?l @ dropWhile isWhiteSpace s" by simp
  also have "dropWhile isWhiteSpace s = trim s @ ?r" by (rule trim_prefix)
  finally have "s = ?l @ trim s @ ?r" .
  moreover have "list_all isWhiteSpace ?l" "list_all isWhiteSpace ?r"
    by (auto simp: list_all_iff dest: set_takeWhileD)
  ultimately show ?thesis by blast
qed

lemma trim_hd: "trim s \<noteq> [] \<Longrightarrow> \<not> isWhiteSpace (hd (trim s))"
proof -
  assume ne: "trim s \<noteq> []"
  let ?a = "dropWhile isWhiteSpace s"
  have "hd ?a = hd (trim s)"
    using ne trim_prefix [of s] by (metis hd_append2)
  moreover have "?a \<noteq> []"
    using ne trim_prefix [of s] by (metis append_is_Nil_conv)
  ultimately show ?thesis
    using dropWhile_hd [of isWhiteSpace s] by simp
qed

lemma trim_last: "trim s \<noteq> [] \<Longrightarrow> \<not> isWhiteSpace (last (trim s))"
proof -
  assume ne: "trim s \<noteq> []"
  let ?b = "dropWhile isWhiteSpace (rev (dropWhile isWhiteSpace s))"
  have b: "?b \<noteq> []" using ne by (simp add: trim_def)
  have "last (trim s) = hd ?b" using b by (simp add: trim_def last_rev)
  with b show ?thesis using dropWhile_hd [of isWhiteSpace] by simp
qed

lemma trim_channel: "is_channel c \<Longrightarrow> trim c = c"
proof -
  assume c: "is_channel c"
  then have 1: "dropWhile isWhiteSpace c = c"
    by (cases c) (auto simp: is_channel_def)
  have "rev c \<noteq> []" "\<not> isWhiteSpace (hd (rev c))"
    using c by (auto simp: is_channel_def hd_rev)
  then have "dropWhile isWhiteSpace (rev c) = rev c"
    by (cases "rev c") auto
  with 1 show ?thesis by (simp add: trim_def)
qed

lemma trim_space_channel: "is_channel c \<Longrightarrow> trim (space # c) = c"
proof -
  assume c: "is_channel c"
  have "isWhiteSpace space" by (simp add: isWhiteSpace_def space_def)
  then have "trim (space # c) = trim c" by (simp add: trim_def)
  with c show ?thesis by (simp add: trim_channel)
qed

lemma parseChannels_is_channel_list: "is_channel_list (parseChannels v)"
proof (cases v)
  case (String s)
  have "is_channel c" if "c \<in> set (map trim (split_comma s))" "c \<noteq> []" for c
  proof -
    from that obtain p where p: "p \<in> set (split_comma s)" "c = trim p" by auto
    then have "comma \<notin> set c" using split_comma_no_comma trim_no_comma by blast
    with that p show ?thesis
      using trim_hd [of p] trim_last [of p] by (simp add: is_channel_def)
  qed
  with String show ?thesis
    by (auto simp: parseChannels_String is_channel_list_def list_all_iff)
qed (simp_all add: is_channel_list_def parseChannels_def)

lemma join_comma_space_Nil_iff: "is_channel_list xs \<Longrightarrow> join_comma_space xs = [] \<longleftrightarrow> xs = []"
  by (induction xs rule: join_comma_space.induct)
     (auto simp: is_channel_list_def is_channel_def)

lemma split_map_trim_join:
  "is_channel_list xs \<Longrightarrow> xs \<noteq> [] \<Longrightarrow>
   map trim (split_comma (join_comma_space xs)) = xs"
proof (induction xs rule: join_comma_space.induct)
  case 1
  then show ?case by simp
next
  case (2 x)
  then have "is_channel x" by (simp add: is_channel_list_def)
  then show ?case
    by (simp add: split_comma_plain trim_channel is_channel_def)
next
  case (3 x y ys)
  then have x: "is_channel x" and rest: "is_channel_list (y # ys)"
    by (simp_all add: is_channel_list_def)
  have nc: "comma \<notin> set x" using x by (simp add: is_channel_def)
  have ih: "map trim (split_comma (join_comma_space (y # ys))) = y # ys"
    using 3 rest by simp
  obtain r where r: "join_comma_space (y # ys) = r" by simp
  have "split_comma (space # r) = (space # hd (split_comma r)) # tl (split_comma r)"
    using split_comma_not_Nil [of r]
    by (cases "split_comma r") (auto simp: space_def comma_def)
  moreover have "map trim (split_comma r) = y # ys" using ih r by simp
  moreover have "trim (space # p) = trim p" for p
    by (simp add: trim_def isWhiteSpace_def space_def)
  ultimately have "map trim (split_comma (space # r)) = y # ys"
    using split_comma_not_Nil [of r] by (cases "split_comma r") auto
  then show ?case
    using nc r x by (simp add: split_comma_append trim_channel)
qed

lemma parseChannels_join:
  "is_channel_list xs \<Longrightarrow> parseChannels (String (join_comma_space xs)) = xs"
proof (cases "xs = []")
  case True
  then show ?thesis by (simp add: parseChannels_String)
next
  case False
  assume xs: "is_channel_list xs"
  have ne: "join_comma_space xs \<noteq> []"
    using xs False by (simp add: join_comma_space_Nil_iff)
  have "filter (\<lambda>c. c \<noteq> []) xs = xs"
    using xs by (auto simp: is_channel_list_def list_all_iff is_channel_def intro: filter_True)
  with ne xs False show ?thesis
    by (simp add: parseChannels_String split_map_trim_join)
qed

section \<open>Channel parsing: the claims\<close>

lemma channel_list_member: "is_channel_list xs \<Longrightarrow> c \<in> set xs \<Longrightarrow> c \<noteq> []"
  by (auto simp: is_channel_list_def list_all_iff is_channel_def)

lemma Trigger_parsed_lists: "parsed_lists (Trigger_fields cfg)"
  by (simp add: parsed_lists_def Trigger_fields_def Let_def parseChannels_is_channel_list)

lemma Trigger_result:
  "Trigger ui cfg = (if ui (Trigger_fields cfg) then Inr (Trigger_fields cfg) else Inl TypeError)"
  by (simp add: Trigger_def updateUI_def Let_def)

text \<open>
  Claim C7.  \<open>parseChannels\<close> maps a value that is absent or not a string to the empty
  list; it maps a string to the list of its comma-separated pieces, trimmed, the empty ones
  dropped, in order and with duplicates kept, so that every entry is non-empty, has no comma
  and no white space at either end; and parsing the \<open>', '\<close>-joined result of a parse
  gives that result again.  What the pieces and the trimming are is settled by
  \<open>split_comma_pieces\<close>, \<open>split_comma_no_comma\<close>, \<open>trim_strips\<close>, \<open>trim_hd\<close> and
  \<open>trim_last\<close>.
\<close>

theorem parseChannels_spec:
  "parseChannels Undefined = [] \<and> parseChannels Null = [] \<and> parseChannels (Boolean b) = []
   \<and> parseChannels (Number n) = [] \<and> parseChannels Object = []
   \<and> parseChannels (String s) = filter (\<lambda>c. c \<noteq> []) (map trim (split_comma s))
   \<and> is_channel_list (parseChannels v)
   \<and> parseChannels (String (join_comma_space (parseChannels v))) = parseChannels v"
proof -
  have "parseChannels (String s) = filter (\<lambda>c. c \<noteq> []) (map trim (split_comma s))"
    by (simp add: parseChannels_String trim_def)
  moreover have "parseChannels (String (join_comma_space (parseChannels v))) = parseChannels v"
    by (rule parseChannels_join) (rule parseChannels_is_channel_list)
  moreover have "is_channel_list (parseChannels v)"
    by (rule parseChannels_is_channel_list)
  moreover have "parseChannels Undefined = []" "parseChannels Null = []"
    "parseChannels (Boolean b) = []" "parseChannels (Number n) = []" "parseChannels Object = []"
    by (simp_all add: parseChannels_not_string)
  ultimately show ?thesis by blast
qed

theorem parseChannels_spec_witness:
  "parseChannels (String (js '' A_ON, B ,,c d ,  A_ON''))
     = [js ''A_ON'', js ''B'', js ''c d'', js ''A_ON'']
   \<and> join_comma_space (parseChannels (String (js '' A_ON, B ,,c d ,  A_ON'')))
     = js ''A_ON, B, c d, A_ON''
   \<and> parseChannels (String (js ''A_ON, B, c d, A_ON''))
     = parseChannels (String (js '' A_ON, B ,,c d ,  A_ON''))"
proof -
  have p: "parseChannels (String (js '' A_ON, B ,,c d ,  A_ON''))
             = [js ''A_ON'', js ''B'', js ''c d'', js ''A_ON'']"
    by (simp add: parseChannels_def js_def trim_def isWhiteSpace_def comma_def)
  have j: "join_comma_space [js ''A_ON'', js ''B'', js ''c d'', js ''A_ON'']
             = js ''A_ON, B, c d, A_ON''"
    by (simp add: js_def comma_def space_def)
  have "parseChannels (String (join_comma_space
            (parseChannels (String (js '' A_ON, B ,,c d ,  A_ON'')))))
          = parseChannels (String (js '' A_ON, B ,,c d ,  A_ON''))"
    using parseChannels_spec [of True 0 "[]" "String (js '' A_ON, B ,,c d ,  A_ON'')"]
    by blast
  then have "parseChannels (String (js ''A_ON, B, c d, A_ON''))
          = parseChannels (String (js '' A_ON, B ,,c d ,  A_ON''))"
    by (simp only: p j)
  with p j show ?thesis by (simp only: simp_thms)
qed

section \<open>Pulse handling\<close>

text \<open>
  When \<open>handlePulse\<close> returns, for a trigger whose channel lists come from channel parsing,
  it returns true exactly when the channel is in \<open>activateOn\<close>, or in \<open>deactivateOn\<close>, or in
  \<open>triggerOn\<close> with the trigger active once the activation and the deactivation check of
  this call have run.  In that third case, with \<open>whenTriggered\<close> set, the queue gains
  the one event \<open>{time: currentTime + delay, channel: whenTriggered, sourceId: id}\<close>;
  with \<open>whenTriggered\<close> absent or empty it gains nothing.  In every other case the queue
  is as it was.
\<close>

lemma handlePulse_returns:
  assumes "parsed_lists t"
    and "handlePulse ui t ch q currentTime lg = (Inr handled, t', q', lg')"
  shows "state t' = (ch \<notin> set (deactivateOn t) \<and> (ch \<in> set (activateOn t) \<or> state t))
       \<and> (handled \<longleftrightarrow> ch \<in> set (activateOn t) \<or> ch \<in> set (deactivateOn t)
                          \<or> (ch \<in> set (triggerOn t) \<and> state t'))
       \<and> (ch \<in> set (triggerOn t) \<and> state t' \<longrightarrow>
            (case whenTriggered t of
               Some w \<Rightarrow>
                 if w \<noteq> []
                 then q' = q @ [\<lparr> time = currentTime + delay t, channel = w, sourceId = tid t \<rparr>]
                 else q' = q
             | None \<Rightarrow> q' = q))
       \<and> (\<not> (ch \<in> set (triggerOn t) \<and> state t') \<longrightarrow> q' = q)"
proof -
  have ne: "ch \<noteq> []"
    if "ch \<in> set (activateOn t) \<or> ch \<in> set (deactivateOn t) \<or> ch \<in> set (triggerOn t)"
    using that assms(1) by (auto simp: parsed_lists_def dest: channel_list_member)
  show ?thesis
    using assms(2) ne
    by (auto simp: handlePulse_def Let_def split: if_splits option.splits)
qed

text \<open>
  It returns unless \<open>updateUI\<close> throws after the activation or after the deactivation, and
  then the trigger is left in the state that was written last.
\<close>

lemma handlePulse_outcome:
  assumes "parsed_lists t"
  shows "fst (handlePulse ui t ch q currentTime lg) =
           (if ch \<in> set (activateOn t) \<and> \<not> ui (t\<lparr>state := True\<rparr>) then Inl TypeError
            else if ch \<in> set (deactivateOn t) \<and> \<not> ui (t\<lparr>state := False\<rparr>) then Inl TypeError
            else Inr (ch \<in> set (activateOn t) \<or> ch \<in> set (deactivateOn t)
                      \<or> (ch \<in> set (triggerOn t) \<and> state t)))"
proof -
  have ne: "ch \<noteq> []"
    if "ch \<in> set (activateOn t) \<or> ch \<in> set (deactivateOn t) \<or> ch \<in> set (triggerOn t)"
    using that assms(1) by (auto simp: parsed_lists_def dest: channel_list_member)
  show ?thesis
    using ne
    by (auto simp: handlePulse_def Let_def updateUI_def split: if_splits option.splits)
qed

lemma handlePulse_thrown_state:
  assumes "handlePulse ui t ch q currentTime lg = (Inl e, t', q', lg')"
  shows "q' = q \<and> (t' = t\<lparr>state := True\<rparr> \<or> t' = t\<lparr>state := False\<rparr>)"
  using assms
  by (auto simp: handlePulse_def Let_def updateUI_def split: if_splits option.splits)

text \<open>
  When \<open>handlePulse\<close> returns for a channel that is in \<open>activateOn\<close> and in \<open>deactivateOn\<close>,
  the trigger is inactive and the value returned is true.
\<close>

lemma handlePulse_tie_returns:
  assumes "parsed_lists t"
    and "ch \<in> set (activateOn t)" and "ch \<in> set (deactivateOn t)"
    and "handlePulse ui t ch q currentTime lg = (Inr handled, t', q', lg')"
  shows "\<not> state t' \<and> handled"
proof -
  have "ch \<noteq> []" using assms(1,2) by (auto simp: parsed_lists_def dest: channel_list_member)
  then show ?thesis using assms(2-)
    by (auto simp: handlePulse_def Let_def split: if_splits option.splits)
qed

text \<open>Two triggers whose display keeps its buttons: a relay, and the trigger \<open>TIE\<close>.\<close>

lemma handlePulse_relay:
  "handlePulse example_browser (Trigger_fields relay_config) (js ''GO'') [] 7 []
     = (Inr True, (Trigger_fields relay_config)\<lparr>state := True\<rparr>,
        [\<lparr> time = 10, channel = js ''OUT'', sourceId = Some (js ''RELAY'') \<rparr>],
        [Scheduling (js ''OUT'') 10, Triggered 7 (Some (js ''RELAY'')) (js ''GO''),
         Activated 7 (Some (js ''RELAY'')) (js ''GO'')])"
  by code_simp

lemma handlePulse_tie:
  "handlePulse example_browser (Trigger_fields tie_config) (js ''X'') [] 0 []
     = (Inr True, (Trigger_fields tie_config)\<lparr>state := False\<rparr>, [],
        [Deactivated 0 (Some (js ''TIE'')) (js ''X''), Activated 0 (Some (js ''TIE'')) (js ''X'')])"
  by code_simp

section \<open>The event queue: sorting and popping\<close>


















section \<open>Rejections: the claims\<close>

text \<open>
  Claim C5.  While a simulation is running, \<open>pulseChannel\<close> only writes the log line
  ``Cannot pulse; simulation is already running.'': the event queue, the clock, the
  triggers, the pending deliveries and the running flag are as before.
\<close>

theorem pulseChannel_rejected_while_running:
  "isSimulating s \<Longrightarrow> pulseChannel ch t s = s\<lparr>logOutput := CannotPulse # logOutput s\<rparr>"
  by (simp add: pulseChannel_def)

theorem pulseChannel_rejected_while_running_witness:
  "isSimulating (pulseChannel (js ''A_ON'') 0 and_gate)
   \<and> pulseChannel (js ''B_ON'') 0 (pulseChannel (js ''A_ON'') 0 and_gate)
       = (pulseChannel (js ''A_ON'') 0 and_gate)
           \<lparr>logOutput := CannotPulse # logOutput (pulseChannel (js ''A_ON'') 0 and_gate)\<rparr>"
proof -
  have h: "isSimulating (pulseChannel (js ''A_ON'') 0 and_gate)"
    by code_simp
  from pulseChannel_rejected_while_running [OF h] h show ?thesis by simp
qed

text \<open>
  Claim C8.  When the text of the file does not parse, or parses to a value that is not an
  array, \<open>loadLayout\<close> shows the alert ``Failed to load layout ...'' and changes nothing
  else: the registry, the event queue and the clock are untouched.
\<close>

theorem loadLayout_malformed:
  "d = Unparsable \<or> d = NotAnArray \<Longrightarrow>
   loadLayout ui (Some (name, d)) s = s\<lparr>alerts := FailedToLoadLayout # alerts s\<rparr>"
  by (auto simp: loadLayout_def)

theorem loadLayout_malformed_witness:
  "(NotAnArray = Unparsable \<or> NotAnArray = NotAnArray)
   \<and> loadLayout example_browser (Some (js ''layout.json'', NotAnArray)) and_gate_running
       = and_gate_running\<lparr>alerts := FailedToLoadLayout # alerts and_gate_running\<rparr>"
proof -
  have h: "NotAnArray = Unparsable \<or> NotAnArray = NotAnArray" by simp
  from loadLayout_malformed [OF h] h show ?thesis by simp
qed

section \<open>The registry: reading and writing properties\<close>

lemma set_insert_index: "set (insert_index n k t r) = insert (k, t) (set r)"
  by (induction r) (auto split: option.splits if_splits)

lemma set_set_property: "set (set_property r k t) \<subseteq> insert (k, t) (set r)"
  by (auto simp: set_property_def set_insert_index split: option.splits if_splits)

lemma map_of_insert_index:
  "k \<notin> fst ` set r \<Longrightarrow> map_of (insert_index n k t r) x = ((map_of r)(k \<mapsto> t)) x"
  by (induction r) (auto split: option.splits if_splits)

lemma map_of_snoc:
  "k \<notin> fst ` set r \<Longrightarrow> map_of (r @ [(k, t)]) x = ((map_of r)(k \<mapsto> t)) x"
  by (induction r) auto

lemma map_of_set_property:
  assumes "k \<notin> fst ` set r"
  shows "map_of (set_property r k t) = (map_of r)(k \<mapsto> t)"
proof
  fix x
  show "map_of (set_property r k t) x = ((map_of r)(k \<mapsto> t)) x"
    using assms map_of_insert_index [OF assms] map_of_snoc [OF assms]
    by (cases "array_index k") (simp_all add: set_property_def)
qed

lemma get_property_Missing:
  "get_property r k = Missing \<longleftrightarrow> k \<notin> fst ` set r \<and> k \<notin> set object_prototype_keys"
proof -
  have "map_of r k = None \<longleftrightarrow> k \<notin> fst ` set r" by (rule map_of_eq_None_iff)
  then show ?thesis by (cases "map_of r k") (auto simp: get_property_def)
qed

text \<open>
  \<open>addTrigger\<close> rejects an absent, an empty and an already registered id, and changes
  nothing but the alerts.
\<close>

lemma addTrigger_rejects:
  assumes "c_id cfg = None \<or> c_id cfg = Some []
           \<or> (\<exists>i. c_id cfg = Some i \<and> i \<in> fst ` set (triggers s))"
  shows "addTrigger ui cfg s = (Inr None, s\<lparr>alerts := InvalidOrDuplicateId # alerts s\<rparr>)"
proof (cases "c_id cfg")
  case None
  then show ?thesis by (simp add: addTrigger_def)
next
  case (Some i)
  with assms have "i = [] \<or> i \<in> fst ` set (triggers s)" by auto
  then have "i = [] \<or> get_property (triggers s) i \<noteq> Missing"
    by (auto simp: get_property_Missing)
  with Some show ?thesis by (simp add: addTrigger_def)
qed

text \<open>
  It registers a trigger under a new id that is not the name of a property inherited from
  \<open>Object.prototype\<close>, when the browser finds the buttons in the display of the new trigger;
  when it does not, the constructor throws and nothing is registered.
\<close>

lemma addTrigger_registers:
  assumes "c_id cfg = Some i" and "i \<noteq> []" and "i \<notin> fst ` set (triggers s)"
    and "i \<notin> set object_prototype_keys" and "ui (Trigger_fields cfg)"
  shows "fst (addTrigger ui cfg s) = Inr (Some (Trigger_fields cfg))
       \<and> map_of (triggers (snd (addTrigger ui cfg s)))
           = (map_of (triggers s))(i \<mapsto> Trigger_fields cfg)"
proof -
  have "get_property (triggers s) i = Missing"
    using assms(3,4) by (simp add: get_property_Missing)
  then show ?thesis
    using assms(1-3,5) by (simp add: addTrigger_def Trigger_result map_of_set_property)
qed

lemma addTrigger_throws:
  assumes "c_id cfg = Some i" and "i \<noteq> []" and "i \<notin> fst ` set (triggers s)"
    and "i \<notin> set object_prototype_keys" and "\<not> ui (Trigger_fields cfg)"
  shows "addTrigger ui cfg s = (Inl TypeError, s)"
proof -
  have "get_property (triggers s) i = Missing"
    using assms(3,4) by (simp add: get_property_Missing)
  then show ?thesis
    using assms(1-3,5) by (simp add: addTrigger_def Trigger_result)
qed

section \<open>What every reachable state satisfies\<close>

text \<open>
  First \<open>consistent\<close>.  The operations on the registry, the selection, the log and the
  alerts leave the fields it reads alone; \<open>run\<close> is only called with no delivery pending;
  a delivery that throws leaves the simulator running with nothing pending.
\<close>

lemma consistent_control: "control s' = control s \<Longrightarrow> consistent s' = consistent s"
  by (simp add: control_def consistent_def)

lemma control_addTrigger: "control (snd (addTrigger ui cfg s)) = control s"
  by (simp add: addTrigger_def control_def split: option.splits sum.splits)

lemma control_selectTrigger: "control (selectTrigger k s) = control s"
  by (simp add: selectTrigger_def control_def)

lemma control_deleteTrigger: "deleteTrigger k s = Inr s' \<Longrightarrow> control s' = control s"
  by (auto simp: deleteTrigger_def selectTrigger_def control_def split: lookup.splits)

lemma control_toggleState: "control (toggleState ui k s) = control s"
  by (simp add: toggleState_def control_def Let_def split: option.splits)

lemma control_updateTriggerProperty: "control (updateTriggerProperty ui e s) = control s"
  by (simp add: updateTriggerProperty_def control_def Let_def split: option.splits)

lemma control_log: "control (s\<lparr>logOutput := lg\<rparr>) = control s"
  by (simp add: control_def)

lemma control_alerts: "control (s\<lparr>alerts := a\<rparr>) = control s"
  by (simp add: control_def)

lemma control_saveLayout: "control (snd (saveLayout s)) = control s"
  by (simp add: saveLayout_def control_def)

lemma control_add_entries: "control (snd (add_entries ui cs s)) = control s"
proof (induction ui cs s rule: add_entries.induct)
  case (3 ui cfg cs s)
  obtain res s' where a: "addTrigger ui cfg s = (res, s')" by (cases "addTrigger ui cfg s")
  then have c: "control s' = control s" using control_addTrigger [of ui cfg s] by simp
  show ?case
  proof (cases res)
    case (Inl e)
    with a c show ?thesis by simp
  next
    case (Inr added)
    with a c 3 show ?thesis by auto
  qed
qed simp_all

lemma control_load_example: "control (load_example ui s) = control s"
proof -
  define cs where "cs = map Some [cfg_T_A_MEM, cfg_T_B_MEM, cfg_T_CHAIN, cfg_T_RESULT]"
  define s0 where "s0 = s\<lparr>logOutput := SimulatorLoaded # logOutput s\<rparr>"
  obtain e s1 where a: "add_entries ui cs s0 = (e, s1)" by (cases "add_entries ui cs s0")
  have "control s1 = control s0" using control_add_entries [of ui cs s0] a by simp
  then have "control s1 = control s" by (simp add: s0_def control_def)
  then show ?thesis using a
    by (cases e) (simp_all add: load_example_def cs_def s0_def control_def)
qed

lemma consistent_log: "consistent (s\<lparr>logOutput := lg\<rparr>) = consistent s"
  by (rule consistent_control) (rule control_log)

lemma consistent_alerts: "consistent (s\<lparr>alerts := a\<rparr>) = consistent s"
  by (rule consistent_control) (rule control_alerts)

lemma consistent_addTrigger: "consistent (snd (addTrigger ui cfg s)) = consistent s"
  by (rule consistent_control) (rule control_addTrigger)

lemma consistent_load_example: "consistent (load_example ui s) = consistent s"
  by (rule consistent_control) (rule control_load_example)

lemma consistent_selectTrigger: "consistent (selectTrigger k s) = consistent s"
  by (rule consistent_control) (rule control_selectTrigger)

lemma consistent_toggleState: "consistent (toggleState ui k s) = consistent s"
  by (rule consistent_control) (rule control_toggleState)

lemma consistent_updateTriggerProperty:
  "consistent (updateTriggerProperty ui e s) = consistent s"
  by (rule consistent_control) (rule control_updateTriggerProperty)

lemma consistent_saveLayout: "consistent (snd (saveLayout s)) = consistent s"
  by (rule consistent_control) (rule control_saveLayout)

lemma consistent_add_entries: "consistent (snd (add_entries ui cs s)) = consistent s"
  by (rule consistent_control) (rule control_add_entries)

lemma consistent_deleteTrigger: "deleteTrigger k s = Inr s' \<Longrightarrow> consistent s' = consistent s"
  by (rule consistent_control) (rule control_deleteTrigger)

lemma popMin_Some: "q \<noteq> [] \<Longrightarrow> \<exists>e rest. popMin q = Some (e, rest) \<and> sort_events q = e # rest"
  by (cases "sort_events q") (auto simp: popMin_def sort_events_def dest: arg_cong [where f = length])

lemma run_consistent:
  assumes "isSimulating s" and "timers s = []" and "activeTimeouts s = []"
  shows "consistent (run s)"
proof (cases "eventQueue s = []")
  case True
  then show ?thesis using assms by (simp add: run_def consistent_def)
next
  case False
  then obtain e rest where "popMin (eventQueue s) = Some (e, rest)"
    using popMin_Some by blast
  then show ?thesis using False assms by (simp add: run_def consistent_def)
qed

lemma clearTimeouts_all: "map fst ts = ids \<Longrightarrow> clearTimeouts ids ts = []"
  by (force simp: clearTimeouts_def filter_empty_conv)

lemma resetSimulation_control:
  "control (resetSimulation ui s) = ([], False, clearTimeouts (activeTimeouts s) (timers s), [])"
  by (simp add: resetSimulation_def control_def Let_def split: prod.splits option.splits)

lemma consistent_resetSimulation: "consistent s \<Longrightarrow> consistent (resetSimulation ui s)"
  using resetSimulation_control [of ui s]
  by (simp add: control_def consistent_def clearTimeouts_all)

lemma consistent_clear: "consistent s \<Longrightarrow> consistent (clear s)"
  by (simp add: clear_def selectTrigger_def consistent_def clearTimeouts_all)

lemma consistent_pulseChannel: "consistent s \<Longrightarrow> consistent (pulseChannel ch t s)"
proof -
  assume c: "consistent s"
  show ?thesis
  proof (cases "isSimulating s \<or> ch = []")
    case True
    then show ?thesis using c
      by (auto simp: pulseChannel_def consistent_log consistent_alerts)
  next
    case False
    then have "timers s = []" "activeTimeouts s = []" using c by (auto simp: consistent_def)
    then show ?thesis using False by (simp add: pulseChannel_def run_consistent)
  qed
qed

lemma consistent_manuallyTrigger: "consistent s \<Longrightarrow> consistent (manuallyTrigger k s)"
proof -
  assume c: "consistent s"
  show ?thesis
  proof (cases "isSimulating s")
    case True
    then show ?thesis using c by (simp add: manuallyTrigger_def consistent_log)
  next
    case False
    then have idle: "timers s = []" "activeTimeouts s = []" using c by (auto simp: consistent_def)
    show ?thesis
    proof (cases "get_property (triggers s) k")
      case (Own t)
      show ?thesis
      proof (cases "state t")
        case True
        with False Own idle show ?thesis
          by (auto simp: manuallyTrigger_def Let_def split: option.splits intro!: run_consistent)
      next
        case False
        with \<open>\<not> isSimulating s\<close> Own c show ?thesis
          by (simp add: manuallyTrigger_def consistent_log)
      qed
    next
      case Inherited
      with False c show ?thesis by (simp add: manuallyTrigger_def consistent_log)
    next
      case Missing
      with False c show ?thesis by (simp add: manuallyTrigger_def)
    qed
  qed
qed

text \<open>
  A delivery, in the two ways it can end: \<open>run\<close> is called on the state the loop leaves, or
  the loop throws and its state stays.
\<close>

lemma fire_timer_cases:
  assumes "timers s = (i, ch) # rest"
    and "broadcast ui ch (clock s) (triggers s) (eventQueue s) (logOutput s) = (res, r, q, lg)"
  shows "fire_timer ui s =
     (case res of
        Inl e \<Rightarrow> s\<lparr>timers := rest, activeTimeouts := drop 1 (activeTimeouts s),
                    triggers := r, eventQueue := q, logOutput := lg\<rparr>
      | Inr h \<Rightarrow> run (s\<lparr>timers := rest, activeTimeouts := drop 1 (activeTimeouts s),
                          triggers := r, eventQueue := q,
                          logOutput := (if h then lg else NotHandled ch # lg)\<rparr>))"
  using assms by (cases res) (simp_all add: fire_timer_def timeout_callback_def Let_def)

lemma consistent_fire_timer: "consistent s \<Longrightarrow> consistent (fire_timer ui s)"
proof -
  assume c: "consistent s"
  show ?thesis
  proof (cases "timers s")
    case Nil
    then show ?thesis using c by (simp add: fire_timer_def)
  next
    case (Cons p rest)
    obtain i ch where p: "p = (i, ch)" by (cases p)
    have rest: "rest = []" and act: "activeTimeouts s = [i]" and sim: "isSimulating s"
      using c Cons p by (auto simp: consistent_def)
    obtain res r q lg
      where b: "broadcast ui ch (clock s) (triggers s) (eventQueue s) (logOutput s) = (res, r, q, lg)"
      by (cases "broadcast ui ch (clock s) (triggers s) (eventQueue s) (logOutput s)") auto
    have t: "timers s = (i, ch) # rest" using Cons p by simp
    show ?thesis
    proof (cases res)
      case (Inl e)
      then show ?thesis
        using fire_timer_cases [OF t b] rest act sim by (simp add: consistent_def)
    next
      case (Inr h)
      then show ?thesis
        using fire_timer_cases [OF t b] rest act sim by (simp add: run_consistent)
    qed
  qed
qed

lemma consistent_loadLayout:
  assumes c: "consistent s"
  shows "consistent (loadLayout ui fl s)"
proof (cases fl)
  case None
  then show ?thesis using c by (simp add: loadLayout_def)
next
  case (Some f)
  obtain name d where f: "f = (name, d)" by (cases f)
  show ?thesis
  proof (cases d)
    case Unparsable
    with Some f c show ?thesis by (simp add: loadLayout_def consistent_alerts)
  next
    case NotAnArray
    with Some f c show ?thesis by (simp add: loadLayout_def consistent_alerts)
  next
    case (Entries cs)
    obtain err s1 where a: "add_entries ui cs (clear s) = (err, s1)"
      by (cases "add_entries ui cs (clear s)")
    have "consistent s1"
      using consistent_add_entries [of ui cs "clear s"] a consistent_clear [OF c] by simp
    then show ?thesis using Some f Entries a
      by (cases err) (simp_all add: loadLayout_def consistent_alerts consistent_log)
  qed
qed

lemma reachable_consistent: "reachable ui s \<Longrightarrow> consistent s"
proof (induction rule: reachable.induct)
  case r_new
  show ?case by (simp add: new_simulator_def consistent_def)
next
  case (r_delete s k s')
  then show ?case using consistent_deleteTrigger by blast
qed (simp_all add: consistent_addTrigger consistent_load_example consistent_selectTrigger
       consistent_toggleState consistent_updateTriggerProperty consistent_saveLayout
       consistent_pulseChannel consistent_manuallyTrigger consistent_fire_timer
       consistent_resetSimulation consistent_clear consistent_loadLayout)

text \<open>
  Then the channel lists: every writer of a list, the constructor and the edit panel, writes
  a result of \<open>parseChannels\<close>.
\<close>

lemma handlePulse_lists:
  "handlePulse ui t ch q now lg = (res, t', q', lg') \<Longrightarrow> parsed_lists t' = parsed_lists t"
  by (auto simp: handlePulse_def Let_def parsed_lists_def split: if_splits option.splits)

lemma broadcast_parsed:
  "broadcast ui ch now r q lg = (res, r', q', lg') \<Longrightarrow> all_parsed r \<Longrightarrow> all_parsed r'"
proof (induction r arbitrary: q lg res r' q' lg')
  case Nil
  then show ?case by simp
next
  case (Cons p r)
  obtain k t where p: "p = (k, t)" by (cases p)
  obtain h1 t1 q1 lg1 where hp: "handlePulse ui t ch q now lg = (h1, t1, q1, lg1)"
    by (cases "handlePulse ui t ch q now lg") auto
  have t1: "parsed_lists t1" and r: "all_parsed r"
    using handlePulse_lists [OF hp] Cons.prems(2) p by (simp_all add: all_parsed_def)
  show ?case
  proof (cases h1)
    case (Inl e)
    then have "r' = (k, t1) # r" using Cons.prems(1) p hp by simp
    with t1 r show ?thesis by (simp add: all_parsed_def)
  next
    case (Inr h)
    obtain h2 r2 q2 lg2 where br: "broadcast ui ch now r q1 lg1 = (h2, r2, q2, lg2)"
      by (cases "broadcast ui ch now r q1 lg1") auto
    have "r' = (k, t1) # r2" using Cons.prems(1) p hp br Inr by (cases h2) simp_all
    moreover have "all_parsed r2" using Cons.IH [OF br r] .
    ultimately show ?thesis using t1 by (simp add: all_parsed_def)
  qed
qed

lemma run_triggers: "triggers (run s) = triggers s"
  by (simp add: run_def split: option.splits)

lemma parsed_addTrigger:
  "all_parsed (triggers s) \<Longrightarrow> all_parsed (triggers (snd (addTrigger ui cfg s)))"
  using set_set_property Trigger_parsed_lists
  by (fastforce simp: addTrigger_def all_parsed_def Trigger_result split: option.splits)

lemma parsed_add_entries:
  "all_parsed (triggers s) \<Longrightarrow> all_parsed (triggers (snd (add_entries ui cs s)))"
proof (induction ui cs s rule: add_entries.induct)
  case (3 ui cfg cs s)
  obtain res s' where a: "addTrigger ui cfg s = (res, s')" by (cases "addTrigger ui cfg s")
  then have c: "all_parsed (triggers s')" using parsed_addTrigger [OF 3(2), of ui cfg] by simp
  show ?case
  proof (cases res)
    case (Inl e)
    with a c show ?thesis by simp
  next
    case (Inr added)
    with a c 3 show ?thesis by auto
  qed
qed simp_all

lemma parsed_load_example:
  "all_parsed (triggers s) \<Longrightarrow> all_parsed (triggers (load_example ui s))"
proof -
  assume a: "all_parsed (triggers s)"
  define cs where "cs = map Some [cfg_T_A_MEM, cfg_T_B_MEM, cfg_T_CHAIN, cfg_T_RESULT]"
  define s0 where "s0 = s\<lparr>logOutput := SimulatorLoaded # logOutput s\<rparr>"
  obtain e s1 where r: "add_entries ui cs s0 = (e, s1)" by (cases "add_entries ui cs s0")
  have "all_parsed (triggers s0)" using a by (simp add: s0_def)
  then have "all_parsed (triggers s1)" using parsed_add_entries [of s0 ui cs] r by simp
  then show ?thesis using r
    by (cases e) (simp_all add: load_example_def cs_def s0_def)
qed

lemma parsed_deleteTrigger:
  "deleteTrigger k s = Inr s' \<Longrightarrow> all_parsed (triggers s) \<Longrightarrow> all_parsed (triggers s')"
  by (auto simp: deleteTrigger_def selectTrigger_def delete_property_def all_parsed_def split: lookup.splits)

lemma parsed_update_trigger:
  "(\<And>t. parsed_lists t \<Longrightarrow> parsed_lists (f t)) \<Longrightarrow> all_parsed r \<Longrightarrow> all_parsed (update_trigger k f r)"
  by (auto simp: update_trigger_def all_parsed_def split: if_splits)

lemma parsed_apply_edit: "parsed_lists t \<Longrightarrow> parsed_lists (apply_edit e t)"
  by (cases e) (simp_all add: parsed_lists_def parseChannels_is_channel_list Let_def)

lemma map_of_parsed: "all_parsed r \<Longrightarrow> map_of r k = Some t \<Longrightarrow> parsed_lists t"
  by (auto simp: all_parsed_def dest: map_of_SomeD)

lemma parsed_toggleState:
  "all_parsed (triggers s) \<Longrightarrow> all_parsed (triggers (toggleState ui k s))"
proof -
  assume a: "all_parsed (triggers s)"
  show ?thesis
  proof (cases "map_of (triggers s) k")
    case None
    then show ?thesis using a by (simp add: toggleState_def)
  next
    case (Some t)
    have "parsed_lists (t\<lparr>state := \<not> state t, initialState := \<not> state t\<rparr>)"
      using map_of_parsed [OF a Some] by (simp add: parsed_lists_def)
    then have "all_parsed (update_trigger k (\<lambda>x. t\<lparr>state := \<not> state t, initialState := \<not> state t\<rparr>)
                 (triggers s))"
      using a by (intro parsed_update_trigger) simp_all
    then show ?thesis using Some a
      by (simp add: toggleState_def Let_def split: option.splits)
  qed
qed

lemma parsed_updateTriggerProperty:
  "all_parsed (triggers s) \<Longrightarrow> all_parsed (triggers (updateTriggerProperty ui e s))"
proof -
  assume a: "all_parsed (triggers s)"
  show ?thesis
  proof (cases "selectedTrigger s")
    case None
    then show ?thesis using a by (simp add: updateTriggerProperty_def)
  next
    case (Some k)
    show ?thesis
    proof (cases "map_of (triggers s) k")
      case None
      then show ?thesis using a Some by (simp add: updateTriggerProperty_def)
    next
      case (Some t)
      have "parsed_lists (apply_edit e t)"
        using map_of_parsed [OF a Some] by (rule parsed_apply_edit)
      then have "all_parsed (update_trigger k (\<lambda>x. apply_edit e t) (triggers s))"
        using a by (intro parsed_update_trigger) simp_all
      then show ?thesis using Some \<open>selectedTrigger s = Some k\<close>
        by (simp add: updateTriggerProperty_def Let_def split: option.splits)
    qed
  qed
qed

lemma reset_all_parsed: "all_parsed r \<Longrightarrow> all_parsed (snd (reset_all ui r))"
proof (induction r)
  case Nil
  then show ?case by simp
next
  case (Cons p r)
  obtain k t where p: "p = (k, t)" by (cases p)
  have t: "parsed_lists (t\<lparr>state := initialState t\<rparr>)" and r: "all_parsed r"
    using Cons.prems p by (simp_all add: all_parsed_def parsed_lists_def)
  obtain e r' where ra: "reset_all ui r = (e, r')" by (cases "reset_all ui r")
  have "all_parsed r'" using Cons.IH [OF r] ra by simp
  with t r ra p show ?case
    by (simp add: reset_def Let_def all_parsed_def split: option.splits)
qed

lemma parsed_resetSimulation:
  "all_parsed (triggers s) \<Longrightarrow> all_parsed (triggers (resetSimulation ui s))"
proof -
  assume a: "all_parsed (triggers s)"
  obtain e r where ra: "reset_all ui (triggers s) = (e, r)" by (cases "reset_all ui (triggers s)")
  have "all_parsed r" using reset_all_parsed [OF a, of ui] ra by simp
  then show ?thesis using ra by (cases e) (simp_all add: resetSimulation_def)
qed

lemma parsed_pulseChannel: "triggers (pulseChannel ch t s) = triggers s"
  by (simp add: pulseChannel_def run_triggers)

lemma parsed_manuallyTrigger: "triggers (manuallyTrigger k s) = triggers s"
  by (simp add: manuallyTrigger_def run_triggers Let_def split: lookup.splits option.splits)

lemma parsed_fire_timer: "all_parsed (triggers s) \<Longrightarrow> all_parsed (triggers (fire_timer ui s))"
proof (cases "timers s")
  case Nil
  then show "all_parsed (triggers s) \<Longrightarrow> ?thesis" by (simp add: fire_timer_def)
next
  case (Cons p rest)
  assume a: "all_parsed (triggers s)"
  obtain i ch where p: "p = (i, ch)" by (cases p)
  obtain res r q lg
    where b: "broadcast ui ch (clock s) (triggers s) (eventQueue s) (logOutput s) = (res, r, q, lg)"
    by (cases "broadcast ui ch (clock s) (triggers s) (eventQueue s) (logOutput s)") auto
  have t: "timers s = (i, ch) # rest" using Cons p by simp
  have "triggers (fire_timer ui s) = r"
    using fire_timer_cases [OF t b] by (cases res) (simp_all add: run_triggers)
  then show ?thesis using broadcast_parsed [OF b a] by simp
qed

lemma parsed_loadLayout:
  "all_parsed (triggers s) \<Longrightarrow> all_parsed (triggers (loadLayout ui fl s))"
proof -
  assume a: "all_parsed (triggers s)"
  have c: "all_parsed (triggers (clear s))" by (simp add: clear_def selectTrigger_def all_parsed_def)
  show ?thesis
  proof (cases fl)
    case None
    then show ?thesis using a by (simp add: loadLayout_def)
  next
    case (Some f)
    obtain name d where f: "f = (name, d)" by (cases f)
    show ?thesis
    proof (cases d)
      case (Entries cs)
      obtain err s1 where e: "add_entries ui cs (clear s) = (err, s1)"
        by (cases "add_entries ui cs (clear s)")
      have "all_parsed (triggers s1)" using parsed_add_entries [OF c, of ui cs] e by simp
      then show ?thesis using Some f Entries e by (cases err) (simp_all add: loadLayout_def)
    qed (use Some f a in \<open>simp_all add: loadLayout_def\<close>)
  qed
qed

lemma reachable_parsed_lists:
  "reachable ui s \<Longrightarrow> \<forall>(k, t) \<in> set (triggers s). parsed_lists t"
proof -
  assume "reachable ui s"
  then have "all_parsed (triggers s)"
  proof (induction rule: reachable.induct)
    case r_new
    show ?case by (simp add: new_simulator_def all_parsed_def)
  next
    case (r_delete s k s')
    then show ?case using parsed_deleteTrigger by blast
  next
    case (r_clear s)
    then show ?case by (simp add: clear_def selectTrigger_def all_parsed_def)
  qed (simp_all add: parsed_addTrigger parsed_load_example selectTrigger_def parsed_pulseChannel
         parsed_manuallyTrigger parsed_fire_timer saveLayout_def parsed_loadLayout
         parsed_toggleState parsed_updateTriggerProperty parsed_resetSimulation)
  then show ?thesis by (simp add: all_parsed_def)
qed

section \<open>The example states\<close>

text \<open>The states of the AND gate example, and how they are reached.\<close>

lemma observe_and_gate_armed:
  "observe and_gate_armed =
     ([(js ''T_A_MEM'', True, True, 0), (js ''T_B_MEM'', True, True, 0),
       (js ''T_CHAIN'', True, False, 2), (js ''T_RESULT'', False, False, 0)],
      [], 0, False, [], [])"
  by code_simp

lemma observe_and_gate_running:
  "observe and_gate_running =
     ([(js ''T_A_MEM'', True, True, 0), (js ''T_B_MEM'', True, True, 0),
       (js ''T_CHAIN'', True, False, 2), (js ''T_RESULT'', False, False, 0)],
      [], 2, True, [(3, js ''AND_SUCCESS'')], [3])"
  by code_simp

lemma and_gate_reachable: "reachable example_browser and_gate"
  unfolding and_gate_def by (intro r_example r_new)

lemma and_gate_armed_reachable: "reachable example_browser and_gate_armed"
  unfolding and_gate_armed_def by (intro r_timer r_pulse and_gate_reachable)

lemma and_gate_running_reachable: "reachable example_browser and_gate_running"
  unfolding and_gate_running_def by (intro r_timer r_pulse and_gate_armed_reachable)

lemma edited_example_reachable: "reachable example_browser edited_example"
  unfolding edited_example_def by (intro r_update r_select and_gate_reachable)

lemma comment_example_reachable: "reachable example_browser comment_example"
  unfolding comment_example_def by (intro r_update r_select and_gate_reachable)

lemma comment_example_result_reachable: "reachable example_browser comment_example_result"
  unfolding comment_example_result_def by (intro r_timer r_pulse comment_example_reachable)

lemma comment_tie_reachable: "reachable example_browser comment_tie"
  unfolding comment_tie_def by (intro r_update r_select r_add r_new)

section \<open>Pulse handling: the claims\<close>

text \<open>
  Claim C1.  \<open>handlePulse\<close> returns true exactly in the three cases of the claim, and
  pushes the one event, whenever it returns (\<open>handlePulse_returns\<close>).  It does not always
  return (\<open>handlePulse_outcome\<close>).  In the AND gate, after \<open><!--\<close> has been typed into the
  ``When Triggered'' field of \<open>T_CHAIN\<close>, the channel lists of \<open>T_CHAIN\<close> are as channel
  parsing made them, \<open>A_ON\<close> is in its \<open>activateOn\<close>, and \<open>handlePulse\<close> on \<open>A_ON\<close> throws a
  \<open>TypeError\<close> after it has activated the trigger: no value is returned.  The other three
  triggers answer as the claim says.
\<close>

theorem handlePulse_throws:
  "map (\<lambda>(k, t). (k, activateOn t, whenTriggered t,
                   fst (handlePulse example_browser t (js ''A_ON'') [] 0 []),
                   state (fst (snd (handlePulse example_browser t (js ''A_ON'') [] 0 [])))))
     (triggers comment_example)
   = [(js ''T_A_MEM'', [js ''A_ON''], None, Inr True, True),
      (js ''T_B_MEM'', [js ''B_ON''], None, Inr False, True),
      (js ''T_CHAIN'', [js ''A_ON''], Some (js ''<!--''), Inl TypeError, True),
      (js ''T_RESULT'', [js ''AND_SUCCESS''], None, Inr False, False)]"
  by code_simp

text \<open>
  Claim C3.  When \<open>handlePulse\<close> returns for a channel that is in both lists, the trigger is
  inactive and the value is true (\<open>handlePulse_tie_returns\<close>).  The trigger \<open>TIE\<close> has \<open>X\<close>
  in \<open>activateOn\<close> and in \<open>deactivateOn\<close>; after \<open><!--\<close> has been typed into its ``When
  Triggered'' field, \<open>handlePulse\<close> on \<open>X\<close> throws right after the activation: the
  deactivation is not reached, the trigger is left active and no value is returned; the
  delivery of a pulse on \<open>X\<close> by the simulator ends the same way.
\<close>

theorem handlePulse_tie_break_throws:
  "map (\<lambda>(k, t). (k, activateOn t, deactivateOn t,
                   fst (handlePulse example_browser t (js ''X'') [] 0 []),
                   state (fst (snd (handlePulse example_browser t (js ''X'') [] 0 [])))))
     (triggers comment_tie)
   = [(js ''TIE'', [js ''X''], [js ''RESET'', js ''X''], Inl TypeError, True)]
   \<and> map (\<lambda>(k, t). (k, state t))
       (triggers (fire_timer example_browser (pulseChannel (js ''X'') 0 comment_tie)))
   = [(js ''TIE'', True)]"
  by code_simp

section \<open>Reset: the claim\<close>

text \<open>
  The loop over the triggers resets them all when no \<open>updateUI\<close> throws.
\<close>

lemma reset_all_None:
  "list_all (\<lambda>(k, t). ui (t\<lparr>state := initialState t\<rparr>)) r \<Longrightarrow>
   reset_all ui r = (None, map (\<lambda>(k, t). (k, t\<lparr>state := initialState t\<rparr>)) r)"
  by (induction r) (auto simp: reset_def updateUI_def Let_def)

text \<open>
  In every state the simulator can reach, \<open>resetSimulation\<close> empties the event queue,
  leaves no delayed delivery pending, sets the clock to 0 and leaves the simulator idle;
  when no \<open>updateUI\<close> throws, it sets the state of each trigger to that trigger's
  \<open>initialState\<close> and changes nothing else of it.
\<close>

lemma resetSimulation_restores:
  assumes "reachable ui s"
  shows "eventQueue (resetSimulation ui s) = []
       \<and> timers (resetSimulation ui s) = [] \<and> activeTimeouts (resetSimulation ui s) = []
       \<and> clock (resetSimulation ui s) = 0
       \<and> \<not> isSimulating (resetSimulation ui s)
       \<and> (list_all (\<lambda>(k, t). ui (t\<lparr>state := initialState t\<rparr>)) (triggers s) \<longrightarrow>
            triggers (resetSimulation ui s)
              = map (\<lambda>(k, t). (k, t\<lparr>state := initialState t\<rparr>)) (triggers s))"
proof -
  have "map fst (timers s) = activeTimeouts s"
    using reachable_consistent [OF assms] by (simp add: consistent_def)
  then show ?thesis
    by (auto simp: resetSimulation_def Let_def reset_all_None clearTimeouts_all
          split: prod.splits option.splits)
qed

text \<open>
  Claim C4.  \<open>resetSimulation\<close> does what the claim says of the queue, the pending
  deliveries, the clock and the running flag, and resets every trigger when no \<open>updateUI\<close>
  throws (\<open>resetSimulation_restores\<close>).  In the AND gate, after \<open><!--\<close> has been typed into
  the ``When Triggered'' field of \<open>T_CHAIN\<close> and a pulse on \<open>AND_SUCCESS\<close> has activated
  \<open>T_RESULT\<close>, the loop of \<open>resetSimulation\<close> ends at \<open>T_CHAIN\<close>, whose \<open>reset\<close> throws:
  \<open>T_RESULT\<close>, which comes after it, keeps the state the pulse gave it, not its
  \<open>initialState\<close>, and the log line of the reset is not written.  Below, the key, the
  state and the \<open>initialState\<close> of each trigger before and after the reset, then the queue,
  the pending deliveries, the clock, the running flag and the log after it.
\<close>

theorem resetSimulation_stops:
  "(let s = comment_example_result;
        s' = resetSimulation example_browser s
    in (map (\<lambda>(k, t). (k, state t, initialState t)) (triggers s),
        map (\<lambda>(k, t). (k, state t, initialState t)) (triggers s'),
        eventQueue s', timers s', clock s', isSimulating s', logOutput s'))
   = ([(js ''T_A_MEM'', True, True), (js ''T_B_MEM'', True, True),
       (js ''T_CHAIN'', False, False), (js ''T_RESULT'', True, False)],
      [(js ''T_A_MEM'', True, True), (js ''T_B_MEM'', True, True),
       (js ''T_CHAIN'', False, False), (js ''T_RESULT'', True, False)],
      [], [], 0, False, [])"
  by code_simp

section \<open>The clock and the order of the deliveries: the claims\<close>

lemma handlePulse_delay:
  "handlePulse ui t ch q now lg = (res, t', q', lg') \<Longrightarrow> delay t' = delay t"
  by (auto simp: handlePulse_def Let_def split: if_splits option.splits)

lemma handlePulse_not_before:
  assumes "handlePulse ui t ch q now lg = (res, t', q', lg')"
    and "0 \<le> delay t" and "not_before now q"
  shows "not_before now q'"
  using assms
  by (auto simp: handlePulse_def Let_def not_before_def split: if_splits option.splits)

lemma broadcast_not_before:
  assumes "broadcast ui ch now r q lg = (res, r', q', lg')"
    and "delays_ok r" and "not_before now q"
  shows "delays_ok r' \<and> not_before now q'"
  using assms
proof (induction r arbitrary: q lg res r' q' lg')
  case Nil
  then show ?case by simp
next
  case (Cons p r)
  obtain k t where p: "p = (k, t)" by (cases p)
  obtain h1 t1 q1 lg1 where hp: "handlePulse ui t ch q now lg = (h1, t1, q1, lg1)"
    by (cases "handlePulse ui t ch q now lg") auto
  have d: "0 \<le> delay t" "delays_ok r"
    using Cons.prems(2) p by (simp_all add: delays_ok_def)
  have q1: "not_before now q1" using hp d(1) Cons.prems(3) by (rule handlePulse_not_before)
  have t1: "delay t1 = delay t" using hp by (rule handlePulse_delay)
  show ?case
  proof (cases h1)
    case (Inl e)
    then have "r' = (k, t1) # r" "q' = q1" using Cons.prems(1) p hp by simp_all
    with q1 t1 d show ?thesis by (simp add: delays_ok_def)
  next
    case (Inr h)
    obtain h2 r2 q2 lg2 where br: "broadcast ui ch now r q1 lg1 = (h2, r2, q2, lg2)"
      by (cases "broadcast ui ch now r q1 lg1") auto
    have res: "r' = (k, t1) # r2" "q' = q2"
      using Cons.prems(1) p hp br Inr by (cases h2; simp)+
    from Cons.IH [OF br d(2) q1] have "delays_ok r2" "not_before now q2" by simp_all
    with res t1 d(1) show ?thesis by (simp add: delays_ok_def)
  qed
qed

lemma run_advances:
  assumes "not_before (clock s) (eventQueue s)"
  shows "clock s \<le> clock (run s) \<and> not_before (clock (run s)) (eventQueue (run s))
         \<and> triggers (run s) = triggers s"
proof (cases "eventQueue s = []")
  case True
  then show ?thesis by (simp add: run_def not_before_def)
next
  case False
  then obtain e rest where p: "popMin (eventQueue s) = Some (e, rest)"
      and srt: "sort_events (eventQueue s) = e # rest"
    using popMin_Some by blast
  have "set (eventQueue s) = insert e (set rest)"
    using srt by (metis list.simps(15) set_sort sort_events_def)
  then have ge: "clock s \<le> time e" using assms by (simp add: not_before_def)
  have "sorted (map time (e # rest))"
    using srt by (metis sorted_sort_key sort_events_def)
  then have "not_before (time e) rest" by (simp add: not_before_def)
  with ge p False show ?thesis by (simp add: run_def)
qed

lemma fire_timer_advances:
  assumes "not_before (clock s) (eventQueue s)" and "delays_ok (triggers s)"
  shows "clock s \<le> clock (fire_timer ui s)
         \<and> not_before (clock (fire_timer ui s)) (eventQueue (fire_timer ui s))
         \<and> delays_ok (triggers (fire_timer ui s))"
proof (cases "timers s")
  case Nil
  then show ?thesis using assms by (simp add: fire_timer_def)
next
  case (Cons p rest)
  obtain i ch where p: "p = (i, ch)" by (cases p)
  obtain res r q lg
    where b: "broadcast ui ch (clock s) (triggers s) (eventQueue s) (logOutput s) = (res, r, q, lg)"
    by (cases "broadcast ui ch (clock s) (triggers s) (eventQueue s) (logOutput s)") auto
  have t: "timers s = (i, ch) # rest" using Cons p by simp
  have rq: "delays_ok r" "not_before (clock s) q"
    using broadcast_not_before [OF b assms(2) assms(1)] by simp_all
  show ?thesis
  proof (cases res)
    case (Inl e)
    then show ?thesis using fire_timer_cases [OF t b] rq by simp
  next
    case (Inr h)
    define s2 where "s2 = s\<lparr>timers := rest, activeTimeouts := drop 1 (activeTimeouts s),
                            triggers := r, eventQueue := q,
                            logOutput := (if h then lg else NotHandled ch # lg)\<rparr>"
    have f: "fire_timer ui s = run s2"
      using fire_timer_cases [OF t b] Inr by (simp add: s2_def)
    have "not_before (clock s2) (eventQueue s2)" "delays_ok (triggers s2)" "clock s2 = clock s"
      using rq by (simp_all add: s2_def)
    with run_advances [of s2] f show ?thesis by simp
  qed
qed

lemma deliveries_not_earlier:
  assumes "not_before (clock s) (eventQueue s)" and "delays_ok (triggers s)"
  shows "\<forall>x \<in> set (deliveries ui n s). clock s \<le> clock x"
  using assms
proof (induction n arbitrary: s)
  case 0
  then show ?case by simp
next
  case (Suc n)
  have step: "clock s \<le> clock (fire_timer ui s)"
    "not_before (clock (fire_timer ui s)) (eventQueue (fire_timer ui s))"
    "delays_ok (triggers (fire_timer ui s))"
    using fire_timer_advances [OF Suc.prems] by simp_all
  have "\<forall>x \<in> set (deliveries ui n (fire_timer ui s)). clock (fire_timer ui s) \<le> clock x"
    using Suc.IH [OF step(2,3)] .
  with step(1) show ?case by auto
qed

lemma deliveries_sorted:
  assumes "not_before (clock s) (eventQueue s)" and "delays_ok (triggers s)"
  shows "sorted (map clock (deliveries ui n s))"
  using assms
proof (induction n arbitrary: s)
  case 0
  then show ?case by simp
next
  case (Suc n)
  have step: "not_before (clock (fire_timer ui s)) (eventQueue (fire_timer ui s))"
    "delays_ok (triggers (fire_timer ui s))"
    using fire_timer_advances [OF Suc.prems] by simp_all
  have "\<forall>x \<in> set (deliveries ui (Suc n) s). clock s \<le> clock x"
    using deliveries_not_earlier [OF Suc.prems] .
  with Suc.IH [OF step] show ?case by simp
qed

text \<open>
  A pulse injected into an idle simulator with no pending event: afterwards no pending
  event is due before the clock, whatever the time of the pulse.
\<close>

lemma pulseChannel_starts:
  assumes "\<not> isSimulating s" and "eventQueue s = []"
  shows "not_before (clock (pulseChannel ch t0 s)) (eventQueue (pulseChannel ch t0 s))
       \<and> triggers (pulseChannel ch t0 s) = triggers s
       \<and> (clock s \<le> t0 \<longrightarrow> clock s \<le> clock (pulseChannel ch t0 s))"
proof (cases "ch = []")
  case True
  then show ?thesis using assms by (simp add: pulseChannel_def not_before_def)
next
  case False
  have "popMin [\<lparr> time = t0, channel = ch, sourceId = Some (js ''EXTERNAL'') \<rparr>]
          = Some (\<lparr> time = t0, channel = ch, sourceId = Some (js ''EXTERNAL'') \<rparr>, [])"
    by (simp add: popMin_def sort_events_def)
  then show ?thesis using False assms
    by (simp add: pulseChannel_def run_def not_before_def)
qed


text \<open>
  Claim C6.  A pulse is injected into an idle simulator whose triggers all have a
  non-negative delay, with a time not before the clock.  Then the clock at the injection,
  the clock after it and the clock after each following delivery form a non-decreasing
  sequence, however many deliveries follow.
\<close>

theorem clock_never_decreases:
  assumes "reachable ui s" and "\<not> isSimulating s"
    and "\<forall>(k, t) \<in> set (triggers s). 0 \<le> delay t"
    and "clock s \<le> t0"
  shows "sorted (clock s # map clock (deliveries ui n (pulseChannel ch t0 s)))"
proof -
  have empty: "eventQueue s = []"
    using reachable_consistent [OF assms(1)] assms(2) by (simp add: consistent_def)
  define s1 where "s1 = pulseChannel ch t0 s"
  have d: "delays_ok (triggers s)" using assms(3) by (simp add: delays_ok_def)
  have 1: "clock s \<le> clock s1" and 2: "not_before (clock s1) (eventQueue s1)"
    and 3: "delays_ok (triggers s1)"
    using pulseChannel_starts [OF assms(2) empty, of ch t0] assms(4) d by (simp_all add: s1_def)
  have "\<forall>x \<in> set (deliveries ui n s1). clock s1 \<le> clock x"
    using deliveries_not_earlier [OF 2 3] .
  with 1 have "\<forall>x \<in> set (deliveries ui n s1). clock s \<le> clock x" by auto
  moreover have "sorted (map clock (deliveries ui n s1))" using deliveries_sorted [OF 2 3] .
  ultimately show ?thesis by (simp add: s1_def)
qed

theorem clock_never_decreases_witness:
  "reachable example_browser and_gate_armed \<and> \<not> isSimulating and_gate_armed
   \<and> map (\<lambda>(k, t). delay t) (triggers and_gate_armed) = [0, 0, 2, 0]
   \<and> clock and_gate_armed \<le> 0
   \<and> sorted (clock and_gate_armed
        # map clock (deliveries example_browser 3 (pulseChannel (js ''B_ON'') 0 and_gate_armed)))
   \<and> clock and_gate_armed
        # map clock (deliveries example_browser 3 (pulseChannel (js ''B_ON'') 0 and_gate_armed))
       = [0, 0, 2, 2, 2]"
proof -
  have h1: "reachable example_browser and_gate_armed" by (rule and_gate_armed_reachable)
  have o: "map (\<lambda>(k, t). (k, state t, initialState t, delay t)) (triggers and_gate_armed)
       = [(js ''T_A_MEM'', True, True, 0), (js ''T_B_MEM'', True, True, 0),
          (js ''T_CHAIN'', True, False, 2), (js ''T_RESULT'', False, False, 0)]"
    and h2: "\<not> isSimulating and_gate_armed" and c0: "clock and_gate_armed = 0"
    using observe_and_gate_armed by (simp_all add: observe_def)
  have "map (\<lambda>(k, t). delay t) (triggers and_gate_armed)
        = map (\<lambda>(k, a, b, d). d)
            (map (\<lambda>(k, t). (k, state t, initialState t, delay t)) (triggers and_gate_armed))"
    by (simp add: case_prod_unfold)
  then have ds: "map (\<lambda>(k, t). delay t) (triggers and_gate_armed) = [0, 0, 2, 0]"
    by (simp only: o) simp
  have "\<forall>d \<in> set (map (\<lambda>(k, t). delay t) (triggers and_gate_armed)). 0 \<le> d"
    by (simp only: ds) simp
  then have h3: "\<forall>(k, t) \<in> set (triggers and_gate_armed). 0 \<le> delay t"
    by (auto simp: case_prod_unfold)
  have h4: "clock and_gate_armed \<le> 0" using c0 by simp
  have tr: "clock and_gate_armed
        # map clock (deliveries example_browser 3 (pulseChannel (js ''B_ON'') 0 and_gate_armed))
       = [0, 0, 2, 2, 2]"
    by code_simp
  from clock_never_decreases [OF h1 h2 h3 h4, of 3 "js ''B_ON''"] h1 h2 h4 ds tr
  show ?thesis by blast
qed




section \<open>The registry: the claim\<close>

text \<open>
  Claim C9.  \<open>addTrigger\<close> rejects an absent, an empty and an already registered id
  without changing the registry (\<open>addTrigger_rejects\<close>), and registers a trigger under a new
  id that is not the name of a property inherited from \<open>Object.prototype\<close>, unless the
  constructor throws (\<open>addTrigger_registers\<close>, \<open>addTrigger_throws\<close>).  The id
  \<open>constructor\<close> is not empty and is new to the empty registry, and yet \<open>addTrigger\<close> shows
  the alert, returns \<open>null\<close> and registers nothing, in every browser.
\<close>

theorem addTrigger_inherited_name:
  "addTrigger ui (cfg_T_RESULT\<lparr>c_id := Some (js ''constructor'')\<rparr>) new_simulator
     = (Inr None, new_simulator\<lparr>alerts := [InvalidOrDuplicateId]\<rparr>)
   \<and> triggers new_simulator = []"
  by (simp add: addTrigger_def get_property_def object_prototype_keys_def new_simulator_def js_def)

section \<open>Serialization: the claim\<close>

lemma serialize_roundtrip:
  assumes "parsed_lists t" and "whenTriggered t \<noteq> Some []"
  shows "Trigger_fields (serialize t) = t\<lparr>state := initialState t\<rparr>"
  using assms
  by (cases "whenTriggered t")
     (auto simp: Trigger_fields_def serialize_def Let_def parsed_lists_def parseChannels_join)

lemma serialize_Trigger:
  assumes "parsed_lists t" and "whenTriggered t \<noteq> Some []"
    and "ui (t\<lparr>state := initialState t\<rparr>)"
  shows "Trigger ui (serialize t) = Inr (t\<lparr>state := initialState t\<rparr>)"
  using assms by (simp add: Trigger_result serialize_roundtrip)

text \<open>
  Claim C10.  Building a trigger from the snapshot of a trigger gives its id, delay,
  channel lists, \<open>whenTriggered\<close> and \<open>initialState\<close> back, with the state set to the
  \<open>initialState\<close>, as long as \<open>whenTriggered\<close> is not the empty string and the constructor
  does not throw (\<open>serialize_roundtrip\<close>, \<open>serialize_Trigger\<close>).  After the ``When
  Triggered'' field of \<open>T_CHAIN\<close> has been emptied in the edit panel, its \<open>whenTriggered\<close>
  is the empty string; the constructor assigns \<open>null\<close> to the \<open>whenTriggered\<close> of the
  trigger it builds from the snapshot, and returns that trigger.
\<close>

theorem serialize_after_edit:
  "map (\<lambda>(k, t). (k, whenTriggered t, whenTriggered (Trigger_fields (serialize t)),
                   map_sum id whenTriggered (Trigger example_browser (serialize t))))
     (triggers edited_example)
   = [(js ''T_A_MEM'', None, None, Inr None), (js ''T_B_MEM'', None, None, Inr None),
      (js ''T_CHAIN'', Some [], None, Inr None), (js ''T_RESULT'', None, None, Inr None)]"
  by code_simp


end
